theory Spec2Isabelle
  imports Main "HOL-Library.Sublist"
begin

section \<open>Exceptions\<close>

text \<open>
  The three failures that \<^verbatim>\<open>iter_retry\<close> and \<^verbatim>\<open>retry\<close> raise themselves are all
  \<^verbatim>\<open>BrowserUnavailable\<close>, told apart by their message:
  \<^item> \<open>NoReply\<close>: 'Site did not reply successfully after multiple tries';
  \<^item> \<open>Inconsistent sent new\<close>: 'Site replied inconsistently between retries, %r vs %r';
  \<^item> \<open>Fewer n m\<close>: 'Site replied fewer elements (%d) than last iteration (%d)'.
\<close>

datatype 'a unavailable = NoReply | Inconsistent 'a 'a | Fewer nat nat

datatype 'a exn =
    LoggedOut
  | StopIteration
  | AttributeError
  | TypeError
  | AssertionError
  | BrowserIncorrectPassword
  | BrokenPageError
  | BrowserUnavailable "'a unavailable"
  | OtherError string

abbreviation ExhaustedRetries :: "'a exn" where
  "ExhaustedRetries \<equiv> BrowserUnavailable NoReply"

abbreviation InconsistentRetryError :: "'a \<Rightarrow> 'a \<Rightarrow> 'a exn" where
  "InconsistentRetryError sent new \<equiv> BrowserUnavailable (Inconsistent sent new)"

abbreviation ShortReplayError :: "nat \<Rightarrow> nat \<Rightarrow> 'a exn" where
  "ShortReplayError n m \<equiv> BrowserUnavailable (Fewer n m)"

text \<open>
  Every decorated method of the browser is decorated with \<^verbatim>\<open>@retry(LoggedOut)\<close>:
  \<^verbatim>\<open>except exc_check\<close> is then \<^verbatim>\<open>except LoggedOut\<close>.
\<close>

definition LoggedOut_check :: "'a exn \<Rightarrow> bool" where
  "LoggedOut_check e = (e = LoggedOut)"

section \<open>Producers\<close>

text \<open>
  What the callback returns: a plain value (no \<^verbatim>\<open>__iter__\<close>); a container such as a list,
  a tuple or a dict, which has \<^verbatim>\<open>__iter__\<close> and is no iterator; or a generator, which is
  the list of what its successive \<^verbatim>\<open>next\<close> calls do. A generator that has raised is
  finished, and a finished generator raises \<^verbatim>\<open>StopIteration\<close>. \<^verbatim>\<open>next\<close> of a value
  that is no iterator, plain or container, raises \<^verbatim>\<open>TypeError\<close>.
\<close>

datatype 'a event = Yield 'a | Raise "'a exn"

datatype 'a pyobj = Plain 'a | Container "'a list" | Generator "'a event list"

fun next_py :: "'a pyobj \<Rightarrow> ('a exn + 'a) \<times> 'a pyobj" where
  "next_py (Plain v) = (Inl TypeError, Plain v)"
| "next_py (Container xs) = (Inl TypeError, Container xs)"
| "next_py (Generator []) = (Inl StopIteration, Generator [])"
| "next_py (Generator (Yield a # es)) = (Inr a, Generator es)"
| "next_py (Generator (Raise e # es)) = (Inl e, Generator [])"

fun pending :: "'a pyobj \<Rightarrow> nat" where
  "pending (Plain v) = 0"
| "pending (Container xs) = 0"
| "pending (Generator es) = length es"

section \<open>iter_retry\<close>

text \<open>
  The fields of the class. The callback \<open>cb\<close> re-runs the decorated method on the live
  site, so what it does depends on how often it has run: its argument is the number of
  earlier invocations, which the functions below thread as the state of the world.
\<close>

record 'a iter_retry =
  cb :: "nat \<Rightarrow> 'a exn + 'a pyobj"
  it :: "'a pyobj option"
  items :: "'a list"
  remaining :: int
  exc_check :: "'a exn \<Rightarrow> bool"

text \<open>
  The comparison of lines 416 to 419. \<open>to_dict x = None\<close> says that \<open>x\<close> has no attribute
  \<^verbatim>\<open>to_dict\<close>; \<open>py_eq\<close> is the \<^verbatim>\<open>==\<close> of the record type. Only \<open>new\<close> is asked
  for the attribute, so \<^verbatim>\<open>sent.to_dict()\<close> raises when \<open>sent\<close> lacks it.
\<close>

definition records_equal ::
  "('a \<Rightarrow> 'd option) \<Rightarrow> ('a \<Rightarrow> 'a \<Rightarrow> bool) \<Rightarrow> 'a \<Rightarrow> 'a \<Rightarrow> 'a exn + bool" where
  "records_equal to_dict py_eq sent new =
     (case to_dict new of
        Some dn \<Rightarrow> (case to_dict sent of
                      None \<Rightarrow> Inl AttributeError
                    | Some ds \<Rightarrow> Inr (ds = dn))
      | None \<Rightarrow> Inr (py_eq sent new))"

text \<open>
  The loop \<^verbatim>\<open>for nb, sent in enumerate(self.items)\<close>: the exception that leaves it, with
  the value of \<open>nb\<close> at that moment, and the iterator as the loop leaves it.
\<close>

fun replay ::
  "('a \<Rightarrow> 'd option) \<Rightarrow> ('a \<Rightarrow> 'a \<Rightarrow> bool) \<Rightarrow> nat \<Rightarrow> 'a list \<Rightarrow> 'a pyobj
     \<Rightarrow> (nat \<times> 'a exn) option \<times> 'a pyobj" where
  "replay to_dict py_eq nb [] g = (None, g)"
| "replay to_dict py_eq nb (sent # rest) g =
     (case next_py g of
        (Inl e, g') \<Rightarrow> (Some (nb, e), g')
      | (Inr new, g') \<Rightarrow>
          (case records_equal to_dict py_eq sent new of
             Inl e \<Rightarrow> (Some (nb, e), g')
           | Inr equal \<Rightarrow>
               if \<not> equal then (Some (nb, InconsistentRetryError sent new), g')
               else replay to_dict py_eq (Suc nb) rest g'))"

text \<open>
  The block \<^verbatim>\<open>if self.it is None:\<close> of \<^verbatim>\<open>__next__\<close>. The call of the callback is
  outside the \<^verbatim>\<open>try\<close>: whatever it raises propagates. \<^verbatim>\<open>except StopIteration\<close> comes
  before \<^verbatim>\<open>except self.exc_check\<close>.
\<close>

datatype 'a step = Propagate "'a exn" | Again | Proceed "'a pyobj"

definition recreate ::
  "('a \<Rightarrow> 'd option) \<Rightarrow> ('a \<Rightarrow> 'a \<Rightarrow> bool) \<Rightarrow> 'a iter_retry \<Rightarrow> nat
     \<Rightarrow> 'a step \<times> 'a iter_retry \<times> nat" where
  "recreate to_dict py_eq s w =
     (case cb s w of
        Inl e \<Rightarrow> (Propagate e, s, Suc w)
      | Inr g \<Rightarrow>
          (case replay to_dict py_eq 0 (items s) g of
             (None, g') \<Rightarrow> (Proceed g', s\<lparr>it := Some g'\<rparr>, Suc w)
           | (Some (nb, e), g') \<Rightarrow>
               if e = StopIteration
               then (Propagate (ShortReplayError (nb + 1) (length (items s))),
                     s\<lparr>it := Some g'\<rparr>, Suc w)
               else if exc_check s e
               then (Again, s\<lparr>it := None, remaining := remaining s - 1\<rparr>, Suc w)
               else (Propagate e, s\<lparr>it := Some g'\<rparr>, Suc w)))"

lemma recreate_remaining:
  "recreate to_dict py_eq s w = (r, s', w') \<Longrightarrow>
     remaining s' = (if r = Again then remaining s - 1 else remaining s)"
  by (auto simp: recreate_def split: sum.splits prod.splits option.splits if_splits)

text \<open>
  \<^verbatim>\<open>__next__\<close>, lines 404 to 443, on the iterator \<open>s\<close> when the callback has run \<open>w\<close> times:
  the item returned or the exception raised, the iterator afterwards and the new number of
  calls. \<^verbatim>\<open>return next(self)\<close> is the recursive call; it is guarded by \<open>remaining\<close>, which
  it has just decremented.
\<close>

function iter_next ::
  "('a \<Rightarrow> 'd option) \<Rightarrow> ('a \<Rightarrow> 'a \<Rightarrow> bool) \<Rightarrow> 'a iter_retry \<times> nat
     \<Rightarrow> ('a exn + 'a) \<times> 'a iter_retry \<times> nat" where
  "iter_next to_dict py_eq (s, w) =
     (if remaining s \<le> 0 then (Inl ExhaustedRetries, s, w)
      else
        case (case it s of
                None \<Rightarrow> recreate to_dict py_eq s w
              | Some g \<Rightarrow> (Proceed g, s, w)) of
          (Propagate e, s', w') \<Rightarrow> (Inl e, s', w')
        | (Again, s', w') \<Rightarrow> iter_next to_dict py_eq (s', w')
        | (Proceed g, s', w') \<Rightarrow>
            (case next_py g of
               (Inl e, g') \<Rightarrow>
                 if exc_check s' e
                 then iter_next to_dict py_eq
                        (s'\<lparr>it := None, remaining := remaining s' - 1\<rparr>, w')
                 else (Inl e, s'\<lparr>it := Some g'\<rparr>, w')
             | (Inr obj, g') \<Rightarrow>
                 (Inr obj, s'\<lparr>it := Some g', items := items s' @ [obj]\<rparr>, w')))"
  by pat_completeness auto
termination
  apply (relation "measure (\<lambda>(to_dict, py_eq, s, w). nat (remaining s))")
    apply simp
   apply (auto split: option.splits dest!: recreate_remaining [OF sym])
  done

declare iter_next.simps [simp del]

lemma iter_next_exhausted:
  "remaining s \<le> 0 \<Longrightarrow> iter_next to_dict py_eq (s, w) = (Inl ExhaustedRetries, s, w)"
  by (simp add: iter_next.simps)

lemma iter_next_yield:
  "0 < remaining s \<Longrightarrow> it s = Some g \<Longrightarrow> next_py g = (Inr a, g') \<Longrightarrow>
   iter_next to_dict py_eq (s, w) = (Inr a, s\<lparr>it := Some g', items := items s @ [a]\<rparr>, w)"
  by (simp add: iter_next.simps)

lemma iter_next_raise:
  "0 < remaining s \<Longrightarrow> it s = Some g \<Longrightarrow> next_py g = (Inl e, g') \<Longrightarrow> \<not> exc_check s e \<Longrightarrow>
   iter_next to_dict py_eq (s, w) = (Inl e, s\<lparr>it := Some g'\<rparr>, w)"
  by (simp add: iter_next.simps)

lemma iter_next_retry:
  "0 < remaining s \<Longrightarrow> it s = Some g \<Longrightarrow> next_py g = (Inl e, g') \<Longrightarrow> exc_check s e \<Longrightarrow>
   iter_next to_dict py_eq (s, w) =
   iter_next to_dict py_eq (s\<lparr>it := None, remaining := remaining s - 1\<rparr>, w)"
  by (subst iter_next.simps) simp

lemma iter_next_recreate_propagate:
  "0 < remaining s \<Longrightarrow> it s = None \<Longrightarrow> recreate to_dict py_eq s w = (Propagate e, s', w') \<Longrightarrow>
   iter_next to_dict py_eq (s, w) = (Inl e, s', w')"
  by (simp add: iter_next.simps)

lemma iter_next_recreate_again:
  "0 < remaining s \<Longrightarrow> it s = None \<Longrightarrow> recreate to_dict py_eq s w = (Again, s', w') \<Longrightarrow>
   iter_next to_dict py_eq (s, w) = iter_next to_dict py_eq (s', w')"
  by (subst iter_next.simps) simp

lemma recreate_proceed:
  "recreate to_dict py_eq s w = (Proceed g, s', w') \<Longrightarrow> it s' = Some g \<and> remaining s' = remaining s"
  by (auto simp: recreate_def split: sum.splits prod.splits option.splits if_splits)

lemma iter_next_Some:
  "0 < remaining s \<Longrightarrow> it s = Some g \<Longrightarrow>
   iter_next to_dict py_eq (s, w) =
     (case next_py g of
        (Inl e, g') \<Rightarrow>
          if exc_check s e
          then iter_next to_dict py_eq (s\<lparr>it := None, remaining := remaining s - 1\<rparr>, w)
          else (Inl e, s\<lparr>it := Some g'\<rparr>, w)
      | (Inr obj, g') \<Rightarrow> (Inr obj, s\<lparr>it := Some g', items := items s @ [obj]\<rparr>, w))"
  by (subst iter_next.simps) simp

lemma iter_next_recreate_proceed:
  assumes "0 < remaining s" "it s = None" "recreate to_dict py_eq s w = (Proceed g, s', w')"
  shows "iter_next to_dict py_eq (s, w) = iter_next to_dict py_eq (s', w')"
proof -
  from recreate_proceed [OF assms(3)] have s': "it s' = Some g" "remaining s' = remaining s"
    by simp_all
  have "iter_next to_dict py_eq (s, w) =
     (case next_py g of
        (Inl e, g') \<Rightarrow>
          if exc_check s' e
          then iter_next to_dict py_eq (s'\<lparr>it := None, remaining := remaining s' - 1\<rparr>, w')
          else (Inl e, s'\<lparr>it := Some g'\<rparr>, w')
      | (Inr obj, g') \<Rightarrow> (Inr obj, s'\<lparr>it := Some g', items := items s' @ [obj]\<rparr>, w'))"
    using assms by (subst iter_next.simps) simp
  also have "\<dots> = iter_next to_dict py_eq (s', w')"
    using s' assms(1) by (simp add: iter_next_Some [of s' g])
  finally show ?thesis .
qed

lemma next_py_pending: "next_py g = (Inr a, g') \<Longrightarrow> pending g' < pending g"
  by (induction g rule: next_py.induct) auto

lemma iter_next_progress:
  "iter_next to_dict py_eq (s, w) = (Inr a, s', w') \<Longrightarrow>
     0 < remaining s' \<and> remaining s' \<le> remaining s \<and>
     (\<exists>g'. it s' = Some g' \<and>
        (remaining s' = remaining s \<longrightarrow>
           (case it s of None \<Rightarrow> True | Some g \<Rightarrow> pending g' < pending g)))"
proof (induction "2 * nat (remaining s) + (if it s = None then 1 else 0)"
    arbitrary: s w rule: less_induct)
  case less
  from less.prems have pos: "0 < remaining s"
    by (auto simp: iter_next.simps split: if_splits)
  show ?case
  proof (cases "it s")
    case (Some g)
    obtain r g' where np: "next_py g = (r, g')" by (cases "next_py g")
    show ?thesis
    proof (cases r)
      case (Inr b)
      with np Some pos less.prems next_py_pending [of g b g'] show ?thesis
        by (auto simp: iter_next_Some [OF pos Some])
    next
      case (Inl e)
      show ?thesis
      proof (cases "exc_check s e")
        case False
        with Inl np Some pos less.prems show ?thesis
          by (auto simp: iter_next_Some [OF pos Some])
      next
        case True
        with Inl np Some pos less.prems
        have eq: "iter_next to_dict py_eq (s\<lparr>it := None, remaining := remaining s - 1\<rparr>, w) = (Inr a, s', w')"
          by (auto simp: iter_next_Some [OF pos Some])
        have "2 * nat (remaining (s\<lparr>it := None, remaining := remaining s - 1\<rparr>))
               + (if it (s\<lparr>it := None, remaining := remaining s - 1\<rparr>) = None then 1 else 0)
              < 2 * nat (remaining s) + (if it s = None then 1 else 0)"
          using pos Some by simp
        from less.hyps [OF this eq] show ?thesis using pos by auto
      qed
    qed
  next
    case None
    obtain r s1 w1 where rc: "recreate to_dict py_eq s w = (r, s1, w1)"
      by (cases "recreate to_dict py_eq s w")
    show ?thesis
    proof (cases r)
      case (Propagate e)
      with rc less.prems iter_next_recreate_propagate [OF pos None, of to_dict py_eq w e s1 w1]
      show ?thesis by simp
    next
      case Again
      with rc iter_next_recreate_again [OF pos None, of to_dict py_eq w s1 w1] less.prems
      have eq: "iter_next to_dict py_eq (s1, w1) = (Inr a, s', w')" by simp
      from rc Again recreate_remaining [OF rc] have r1: "remaining s1 = remaining s - 1" by simp
      have "2 * nat (remaining s1) + (if it s1 = None then 1 else 0)
              < 2 * nat (remaining s) + (if it s = None then 1 else 0)"
        using pos r1 None by (auto simp: nat_diff_distrib)
      from less.hyps [OF this eq] show ?thesis using pos r1 None by auto
    next
      case (Proceed g)
      with rc iter_next_recreate_proceed [OF pos None, of to_dict py_eq w g s1 w1] less.prems
      have eq: "iter_next to_dict py_eq (s1, w1) = (Inr a, s', w')" by simp
      from rc Proceed recreate_proceed [of to_dict py_eq s w g s1 w1]
      have r1: "remaining s1 = remaining s" "it s1 = Some g" by simp_all
      have "2 * nat (remaining s1) + (if it s1 = None then 1 else 0)
              < 2 * nat (remaining s) + (if it s = None then 1 else 0)"
        using pos r1 None by simp
      from less.hyps [OF this eq] show ?thesis using pos r1 None by auto
    qed
  qed
qed

text \<open>
  The consumer: a \<^verbatim>\<open>for\<close> loop over the iterator (or \<^verbatim>\<open>list(...)\<close>), which calls
  \<^verbatim>\<open>__next__\<close> until it raises. \<open>consume\<close> returns the records the loop received, the
  exception that ended it (\<^verbatim>\<open>StopIteration\<close> when the loop ends normally), and the iterator
  and the number of calls of the callback as the loop leaves them. It terminates: each
  record either shortens the current generator or has used up a unit of \<open>remaining\<close>.
\<close>

function consume ::
  "('a \<Rightarrow> 'd option) \<Rightarrow> ('a \<Rightarrow> 'a \<Rightarrow> bool) \<Rightarrow> 'a iter_retry \<times> nat
     \<Rightarrow> 'a list \<times> 'a exn \<times> 'a iter_retry \<times> nat" where
  "consume to_dict py_eq sw =
     (case iter_next to_dict py_eq sw of
        (Inl e, sw') \<Rightarrow> ([], e, sw')
      | (Inr a, sw') \<Rightarrow>
          (case consume to_dict py_eq sw' of (xs, r) \<Rightarrow> (a # xs, r)))"
  by pat_completeness auto
termination
proof (relation "measures [\<lambda>(to_dict, py_eq, s, w). nat (remaining s),
                           \<lambda>(to_dict, py_eq, s, w). (case it s of None \<Rightarrow> 1 | Some g \<Rightarrow> 0),
                           \<lambda>(to_dict, py_eq, s, w). (case it s of None \<Rightarrow> 0 | Some g \<Rightarrow> pending g)]")
  show "wf (measures [\<lambda>(to_dict :: 'a \<Rightarrow> 'd option, py_eq :: 'a \<Rightarrow> 'a \<Rightarrow> bool, s :: 'a iter_retry, w :: nat). nat (remaining s),
                           \<lambda>(to_dict, py_eq, s, w). (case it s of None \<Rightarrow> 1 | Some g \<Rightarrow> 0),
                           \<lambda>(to_dict, py_eq, s, w). (case it s of None \<Rightarrow> 0 | Some g \<Rightarrow> pending g)])"
    by simp
next
  fix to_dict :: "'a \<Rightarrow> 'd option" and py_eq :: "'a \<Rightarrow> 'a \<Rightarrow> bool"
    and sw :: "'a iter_retry \<times> nat" and x1 sw' a
  assume "(x1, sw') = iter_next to_dict py_eq sw" and "x1 = Inr a"
  then have eq: "iter_next to_dict py_eq (fst sw, snd sw) = (Inr a, fst sw', snd sw')"
    by simp
  from iter_next_progress [OF eq]
  show "((to_dict, py_eq, sw'), (to_dict, py_eq, sw)) \<in>
     measures [\<lambda>(to_dict, py_eq, s, w). nat (remaining s),
                           \<lambda>(to_dict, py_eq, s, w). (case it s of None \<Rightarrow> 1 | Some g \<Rightarrow> 0),
                           \<lambda>(to_dict, py_eq, s, w). (case it s of None \<Rightarrow> 0 | Some g \<Rightarrow> pending g)]"
    by (cases sw; cases sw') (auto split: option.splits)
qed

declare consume.simps [simp del]

text \<open>
  The wrapper that \<^verbatim>\<open>retry(exc_check, tries)\<close> puts around a method. \<open>retry_loop\<close> is
  the loop \<^verbatim>\<open>for i in xrange(tries, 0, -1)\<close> from the value \<open>i\<close> on; falling out of the
  loop raises \<^verbatim>\<open>BrowserUnavailable\<close>.
\<close>

datatype 'a returned = Value 'a | Wrapped "'a iter_retry"

function retry_loop ::
  "(nat \<Rightarrow> 'a exn + 'a pyobj) \<Rightarrow> ('a exn \<Rightarrow> bool) \<Rightarrow> int \<Rightarrow> nat
     \<Rightarrow> ('a exn + 'a returned) \<times> nat" where
  "retry_loop func_cb check i w =
     (if i \<le> 0 then (Inl ExhaustedRetries, w)
      else
        case func_cb w of
          Inl exc \<Rightarrow>
            if check exc then retry_loop func_cb check (i - 1) (Suc w)
            else (Inl exc, Suc w)
        | Inr (Plain v) \<Rightarrow> (Inr (Value v), Suc w)
        | Inr (Container xs) \<Rightarrow>
            (Inr (Wrapped \<lparr>cb = func_cb, it = Some (Container xs), items = [],
                               remaining = i, exc_check = check\<rparr>), Suc w)
        | Inr (Generator es) \<Rightarrow>
            (Inr (Wrapped \<lparr>cb = func_cb, it = Some (Generator es), items = [],
                               remaining = i, exc_check = check\<rparr>), Suc w))"
  by pat_completeness auto
termination
  by (relation "measure (\<lambda>(func_cb, check, i, w). nat i)") auto

declare retry_loop.simps [simp del]

definition retry ::
  "('a exn \<Rightarrow> bool) \<Rightarrow> int \<Rightarrow> (nat \<Rightarrow> 'a exn + 'a pyobj) \<Rightarrow> nat
     \<Rightarrow> ('a exn + 'a returned) \<times> nat" where
  "retry check tries func_cb w = retry_loop func_cb check tries w"

definition default_tries :: int where
  "default_tries = 4"

lemma retry_loop_exhausted:
  "i \<le> 0 \<Longrightarrow> retry_loop func_cb check i w = (Inl ExhaustedRetries, w)"
  by (simp add: retry_loop.simps)

lemma retry_loop_transient:
  "0 < i \<Longrightarrow> func_cb w = Inl e \<Longrightarrow> check e \<Longrightarrow>
   retry_loop func_cb check i w = retry_loop func_cb check (i - 1) (Suc w)"
  by (subst retry_loop.simps) simp

lemma retry_loop_propagate:
  "0 < i \<Longrightarrow> func_cb w = Inl e \<Longrightarrow> \<not> check e \<Longrightarrow>
   retry_loop func_cb check i w = (Inl e, Suc w)"
  by (simp add: retry_loop.simps)

lemma retry_loop_value:
  "0 < i \<Longrightarrow> func_cb w = Inr (Plain v) \<Longrightarrow>
   retry_loop func_cb check i w = (Inr (Value v), Suc w)"
  by (simp add: retry_loop.simps)

lemma retry_loop_generator:
  "0 < i \<Longrightarrow> func_cb w = Inr (Generator es) \<Longrightarrow>
   retry_loop func_cb check i w =
     (Inr (Wrapped \<lparr>cb = func_cb, it = Some (Generator es), items = [],
                      remaining = i, exc_check = check\<rparr>), Suc w)"
  by (simp add: retry_loop.simps)

text \<open>
  A container passes \<^verbatim>\<open>hasattr(ret, '__iter__')\<close> and is wrapped like a generator; it is no
  iterator, so the first \<^verbatim>\<open>next\<close> on the wrapper raises \<^verbatim>\<open>TypeError\<close>.
\<close>

lemma retry_loop_container:
  "0 < i \<Longrightarrow> func_cb w = Inr (Container xs) \<Longrightarrow>
   retry_loop func_cb check i w =
     (Inr (Wrapped \<lparr>cb = func_cb, it = Some (Container xs), items = [],
                      remaining = i, exc_check = check\<rparr>), Suc w)"
  by (simp add: retry_loop.simps)

lemma iter_next_container:
  "0 < remaining s \<Longrightarrow> it s = Some (Container xs) \<Longrightarrow> \<not> exc_check s TypeError \<Longrightarrow>
   iter_next to_dict py_eq (s, w) = (Inl TypeError, s\<lparr>it := Some (Container xs)\<rparr>, w)"
  by (rule iter_next_raise [where g = "Container xs"]) simp_all

lemma retry_loop_skip:
  "\<forall>j<k. \<exists>e. func_cb (w + j) = Inl e \<and> check e \<Longrightarrow> int k \<le> i \<Longrightarrow>
   retry_loop func_cb check i w = retry_loop func_cb check (i - int k) (w + k)"
proof (induction k arbitrary: w i)
  case 0
  then show ?case by simp
next
  case (Suc k)
  from Suc.prems(1) obtain e where e: "func_cb w = Inl e" "check e" by force
  from Suc.prems(2) have pos: "0 < i" by simp
  have "\<forall>j<k. \<exists>e. func_cb (Suc w + j) = Inl e \<and> check e"
    using Suc.prems(1) by (metis Suc_less_eq add_Suc_shift)
  from Suc.IH [OF this, of "i - 1"] Suc.prems(2)
  have "retry_loop func_cb check (i - 1) (Suc w) = retry_loop func_cb check (i - 1 - int k) (Suc w + k)"
    by simp
  with retry_loop_transient [of i func_cb w e check] pos e show ?case by (simp add: algebra_simps)
qed

section \<open>The single-value case\<close>

text \<open>
  Claim C5. Under the default budget of 4 calls, when the first three calls of the
  decorated function raise an exception of the retried class: if the fourth call
  returns a plain value, the wrapper returns that value as it is, after four calls; if
  the fourth call raises an exception of the retried class too, the wrapper raises
  \<^verbatim>\<open>BrowserUnavailable\<close> ('Site did not reply successfully after multiple tries'),
  after four calls.
\<close>

theorem retry_single_value:
  assumes "\<forall>j<3. \<exists>e. func_cb (w + j) = Inl e \<and> check e"
  shows "(func_cb (w + 3) = Inr (Plain v) \<longrightarrow>
            retry check default_tries func_cb w = (Inr (Value v), w + 4)) \<and>
         ((\<exists>e. func_cb (w + 3) = Inl e \<and> check e) \<longrightarrow>
            retry check default_tries func_cb w = (Inl ExhaustedRetries, w + 4))"
proof -
  from retry_loop_skip [OF assms, of 4]
  have three: "retry check default_tries func_cb w = retry_loop func_cb check 1 (w + 3)"
    by (simp add: retry_def default_tries_def)
  show ?thesis
  proof (intro conjI impI)
    assume "func_cb (w + 3) = Inr (Plain v)"
    then show "retry check default_tries func_cb w = (Inr (Value v), w + 4)"
      using three by (simp add: retry_loop_value)
  next
    assume "\<exists>e. func_cb (w + 3) = Inl e \<and> check e"
    then obtain e where "func_cb (w + 3) = Inl e" "check e" by blast
    then have "retry_loop func_cb check 1 (w + 3) = retry_loop func_cb check 0 (Suc (w + 3))"
      using retry_loop_transient [of 1 func_cb "w + 3" e check] by simp
    then show "retry check default_tries func_cb w = (Inl ExhaustedRetries, w + 4)"
      using three by (simp add: retry_loop_exhausted)
  qed
qed

theorem retry_single_value_witness:
  "retry LoggedOut_check default_tries
     (\<lambda>n. if n < 3 then Inl LoggedOut else Inr (Plain (7::nat))) 0 = (Inr (Value 7), 4) \<and>
   retry LoggedOut_check default_tries
     (\<lambda>n. Inl LoggedOut :: nat exn + nat pyobj) 0 = (Inl ExhaustedRetries, 4)"
  using retry_single_value [where w = 0 and check = LoggedOut_check and v = 7
      and func_cb = "\<lambda>n. if n < 3 then Inl LoggedOut else Inr (Plain (7::nat))"]
    retry_single_value [where w = 0 and check = LoggedOut_check and v = 0
      and func_cb = "\<lambda>n. Inl LoggedOut :: nat exn + nat pyobj"]
  by (simp add: LoggedOut_check_def)

section \<open>Replay\<close>

text \<open>The comparison of one replayed record, as a truth value when it does not raise.\<close>

definition same :: "('a \<Rightarrow> 'd option) \<Rightarrow> ('a \<Rightarrow> 'a \<Rightarrow> bool) \<Rightarrow> 'a \<Rightarrow> 'a \<Rightarrow> bool" where
  "same to_dict py_eq sent new = (records_equal to_dict py_eq sent new = Inr True)"

lemma replay_confirmed:
  "list_all2 (same to_dict py_eq) pre ys \<Longrightarrow>
   replay to_dict py_eq nb (pre @ post) (Generator (map Yield ys @ es)) =
   replay to_dict py_eq (nb + length pre) post (Generator es)"
proof (induction pre ys arbitrary: nb rule: list_all2_induct)
  case Nil
  then show ?case by simp
next
  case (Cons x xs y ys)
  then show ?case by (simp add: same_def)
qed

lemma replay_all_confirmed:
  "list_all2 (same to_dict py_eq) pre ys \<Longrightarrow>
   replay to_dict py_eq nb pre (Generator (map Yield ys @ es)) = (None, Generator es)"
  using replay_confirmed [of to_dict py_eq pre ys nb "[]" es] by simp

lemma consume_raise:
  "iter_next to_dict py_eq sw = (Inl e, sw') \<Longrightarrow> consume to_dict py_eq sw = ([], e, sw')"
  by (subst consume.simps) simp

lemma consume_yield:
  "iter_next to_dict py_eq sw = (Inr a, sw') \<Longrightarrow>
   consume to_dict py_eq sw =
     (a # fst (consume to_dict py_eq sw'), snd (consume to_dict py_eq sw'))"
  by (subst consume.simps) (simp split: prod.splits)

lemma consume_cong:
  "iter_next to_dict py_eq sw = iter_next to_dict py_eq sw' \<Longrightarrow>
   consume to_dict py_eq sw = consume to_dict py_eq sw'"
  by (subst consume.simps, subst (2) consume.simps) simp

lemma take_split:
  "n < length xs \<Longrightarrow> xs = take n xs @ xs ! n # drop (Suc n) xs"
  by (simp add: id_take_nth_drop)

text \<open>Records for the examples: accounts that have \<^verbatim>\<open>to_dict\<close>, and bare numbers that do not.\<close>

datatype acct = Acct nat string | Num nat

fun acct_to_dict :: "acct \<Rightarrow> (nat \<times> string) option" where
  "acct_to_dict (Acct i l) = Some (i, l)"
| "acct_to_dict (Num n) = None"

text \<open>An iterator that has sent two accounts and lost its generator to a retried exception.\<close>

definition replaying :: "(nat \<Rightarrow> acct exn + acct pyobj) \<Rightarrow> acct iter_retry" where
  "replaying f = \<lparr>cb = f, it = None, items = [Acct 1 ''A'', Acct 2 ''B''], remaining = 3,
                  exc_check = LoggedOut_check\<rparr>"

text \<open>
  Claim C9. While the items already sent are replayed, the record that the recreated
  generator yields at position \<open>length pre\<close>, the earlier positions having been
  confirmed, is compared with the record sent at that position: by the equality of the two
  \<^verbatim>\<open>to_dict()\<close> results when the new record has the attribute \<^verbatim>\<open>to_dict\<close>, by \<^verbatim>\<open>==\<close>
  otherwise. Equal records let the replay go on with the next position; unequal ones
  leave the loop with \<^verbatim>\<open>BrowserUnavailable\<close> ('Site replied inconsistently between
  retries'). Only the new record is asked for the attribute: a sent record without it makes
  \<^verbatim>\<open>sent.to_dict()\<close> raise \<^verbatim>\<open>AttributeError\<close>.
\<close>

theorem replay_comparison:
  assumes "list_all2 (same to_dict py_eq) pre ys"
  shows "replay to_dict py_eq 0 (pre @ sent # post) (Generator (map Yield ys @ Yield new # es)) =
     (case to_dict new of
        Some dn \<Rightarrow>
          (case to_dict sent of
             Some ds \<Rightarrow>
               if ds = dn
               then replay to_dict py_eq (Suc (length pre)) post (Generator es)
               else (Some (length pre, InconsistentRetryError sent new), Generator es)
           | None \<Rightarrow> (Some (length pre, AttributeError), Generator es))
      | None \<Rightarrow>
          if py_eq sent new
          then replay to_dict py_eq (Suc (length pre)) post (Generator es)
          else (Some (length pre, InconsistentRetryError sent new), Generator es))"
  using replay_confirmed [OF assms, of 0 "sent # post" "Yield new # es"]
  by (simp add: records_equal_def split: option.splits)

theorem replay_comparison_witness:
  "list_all2 (same acct_to_dict (=)) [Acct 1 ''a''] [Acct 1 ''a''] \<and>
   replay acct_to_dict (=) 0 ([Acct 1 ''a''] @ Acct 2 ''b'' # [])
     (Generator (map Yield [Acct 1 ''a''] @ Yield (Acct 2 ''c'') # [])) =
   (Some (1, InconsistentRetryError (Acct 2 ''b'') (Acct 2 ''c'')), Generator [])"
proof -
  have h: "list_all2 (same acct_to_dict (=)) [Acct 1 ''a''] [Acct 1 ''a'']"
    by (simp add: same_def records_equal_def)
  from replay_comparison [OF h, of "Acct 2 ''b''" "[]" "Acct 2 ''c''" "[]"] h
  show ?thesis by simp
qed

text \<open>
  Claim C3. When the generator recreated after a retried exception ends after confirming
  only \<open>length ys\<close> of the items already sent, fewer than were sent, \<^verbatim>\<open>next\<close> raises
  \<^verbatim>\<open>BrowserUnavailable\<close> ('Site replied fewer elements than last iteration'): the
  sequence does not end with \<^verbatim>\<open>StopIteration\<close>, the budget \<open>remaining\<close> is not touched
  and the callback has run just once, so nothing is retried; a consumer that stops at the
  first exception receives no further record.
\<close>

theorem short_replay:
  assumes "0 < remaining s" and "it s = None"
    and "cb s w = Inr (Generator (map Yield ys))"
    and "length ys < length (items s)"
    and "list_all2 (same to_dict py_eq) (take (length ys) (items s)) ys"
  shows "iter_next to_dict py_eq (s, w) =
           (Inl (ShortReplayError (length ys + 1) (length (items s))),
            s\<lparr>it := Some (Generator [])\<rparr>, Suc w) \<and>
         consume to_dict py_eq (s, w) =
           ([], ShortReplayError (length ys + 1) (length (items s)),
            s\<lparr>it := Some (Generator [])\<rparr>, Suc w)"
proof -
  let ?n = "length ys"
  have "replay to_dict py_eq 0 (take ?n (items s) @ items s ! ?n # drop (Suc ?n) (items s))
           (Generator (map Yield ys @ [])) =
        replay to_dict py_eq (0 + length (take ?n (items s))) (items s ! ?n # drop (Suc ?n) (items s))
           (Generator [])"
    by (rule replay_confirmed [OF assms(5)])
  with take_split [OF assms(4)] assms(4)
  have "replay to_dict py_eq 0 (items s) (Generator (map Yield ys)) =
          (Some (?n, StopIteration), Generator [])"
    by simp
  with assms(3) have "recreate to_dict py_eq s w =
      (Propagate (ShortReplayError (?n + 1) (length (items s))), s\<lparr>it := Some (Generator [])\<rparr>, Suc w)"
    by (simp add: recreate_def)
  from iter_next_recreate_propagate [OF assms(1,2) this]
  show ?thesis by (simp add: consume_raise)
qed

theorem short_replay_witness:
  "0 < remaining (replaying (\<lambda>n. Inr (Generator (map Yield [Acct 1 ''A'']))))
   \<and> it (replaying (\<lambda>n. Inr (Generator (map Yield [Acct 1 ''A''])))) = None
   \<and> length [Acct 1 ''A''] < length (items (replaying (\<lambda>n. Inr (Generator (map Yield [Acct 1 ''A''])))))
   \<and> fst (consume acct_to_dict (=) (replaying (\<lambda>n. Inr (Generator (map Yield [Acct 1 ''A'']))), 1))
       = []
   \<and> fst (snd (consume acct_to_dict (=) (replaying (\<lambda>n. Inr (Generator (map Yield [Acct 1 ''A'']))), 1)))
       = ShortReplayError 2 2"
proof -
  let ?s = "replaying (\<lambda>n. Inr (Generator (map Yield [Acct 1 ''A''])))"
  have h: "0 < remaining ?s" "it ?s = None" "cb ?s 1 = Inr (Generator (map Yield [Acct 1 ''A'']))"
    "length [Acct 1 ''A''] < length (items ?s)"
    "list_all2 (same acct_to_dict (=)) (take (length [Acct 1 ''A'']) (items ?s)) [Acct 1 ''A'']"
    by (simp_all add: replaying_def same_def records_equal_def)
  from short_replay [OF h] h show ?thesis by (simp add: replaying_def)
qed

text \<open>
  A mismatch during the replay, lines 416 to 422. The \<^verbatim>\<open>raise\<close> is inside the \<^verbatim>\<open>try\<close>: when
  \<^verbatim>\<open>BrowserUnavailable\<close> is not of the retried class, \<^verbatim>\<open>__next__\<close> raises it, and \<open>it\<close> keeps
  the generator at the position after the record that differs; when it is of the retried
  class (the default \<^verbatim>\<open>exc_check=Exception\<close> of \<^verbatim>\<open>iter_retry\<close>), the mismatch is caught and
  the callback is called again.
\<close>

lemma iter_next_inconsistent:
  assumes "0 < remaining s" and "it s = None"
    and "cb s w = Inr (Generator (map Yield ys @ Yield new # es))"
    and "length ys < length (items s)"
    and "list_all2 (same to_dict py_eq) (take (length ys) (items s)) ys"
    and "records_equal to_dict py_eq (items s ! length ys) new = Inr False"
    and "\<not> exc_check s (InconsistentRetryError (items s ! length ys) new)"
  shows "iter_next to_dict py_eq (s, w) =
           (Inl (InconsistentRetryError (items s ! length ys) new),
            s\<lparr>it := Some (Generator es)\<rparr>, Suc w)"
proof -
  let ?n = "length ys"
  have "replay to_dict py_eq 0 (take ?n (items s) @ items s ! ?n # drop (Suc ?n) (items s))
           (Generator (map Yield ys @ Yield new # es)) =
        replay to_dict py_eq (0 + length (take ?n (items s))) (items s ! ?n # drop (Suc ?n) (items s))
           (Generator (Yield new # es))"
    by (rule replay_confirmed [OF assms(5)])
  with take_split [OF assms(4)] assms(4,6)
  have "replay to_dict py_eq 0 (items s) (Generator (map Yield ys @ Yield new # es)) =
          (Some (?n, InconsistentRetryError (items s ! ?n) new), Generator es)"
    by simp
  with assms(3,7) have "recreate to_dict py_eq s w =
      (Propagate (InconsistentRetryError (items s ! ?n) new), s\<lparr>it := Some (Generator es)\<rparr>, Suc w)"
    by (simp add: recreate_def)
  from iter_next_recreate_propagate [OF assms(1,2) this]
  show ?thesis .
qed

lemma iter_next_inconsistent_caught:
  assumes "0 < remaining s" and "it s = None"
    and "cb s w = Inr (Generator (map Yield ys @ Yield new # es))"
    and "length ys < length (items s)"
    and "list_all2 (same to_dict py_eq) (take (length ys) (items s)) ys"
    and "records_equal to_dict py_eq (items s ! length ys) new = Inr False"
    and "exc_check s (InconsistentRetryError (items s ! length ys) new)"
  shows "iter_next to_dict py_eq (s, w) =
           iter_next to_dict py_eq (s\<lparr>it := None, remaining := remaining s - 1\<rparr>, Suc w)"
proof -
  let ?n = "length ys"
  have "replay to_dict py_eq 0 (take ?n (items s) @ items s ! ?n # drop (Suc ?n) (items s))
           (Generator (map Yield ys @ Yield new # es)) =
        replay to_dict py_eq (0 + length (take ?n (items s))) (items s ! ?n # drop (Suc ?n) (items s))
           (Generator (Yield new # es))"
    by (rule replay_confirmed [OF assms(5)])
  with take_split [OF assms(4)] assms(4,6)
  have "replay to_dict py_eq 0 (items s) (Generator (map Yield ys @ Yield new # es)) =
          (Some (?n, InconsistentRetryError (items s ! ?n) new), Generator es)"
    by simp
  with assms(3,7) have "recreate to_dict py_eq s w =
      (Again, s\<lparr>it := None, remaining := remaining s - 1\<rparr>, Suc w)"
    by (simp add: recreate_def)
  from iter_next_recreate_again [OF assms(1,2) this] show ?thesis .
qed




lemma replay_raise:
  assumes "list_all2 (same to_dict py_eq) (take (length ys) sent) ys"
    and "length ys < length sent"
  shows "replay to_dict py_eq 0 sent (Generator (map Yield ys @ Raise e # es)) =
           (Some (length ys, e), Generator [])"
proof -
  let ?n = "length ys"
  have "replay to_dict py_eq 0 (take ?n sent @ sent ! ?n # drop (Suc ?n) sent)
           (Generator (map Yield ys @ Raise e # es)) =
        replay to_dict py_eq (0 + length (take ?n sent)) (sent ! ?n # drop (Suc ?n) sent)
           (Generator (Raise e # es))"
    by (rule replay_confirmed [OF assms(1)])
  with take_split [OF assms(2)] assms(2) show ?thesis by simp
qed

lemma iter_next_replay_raise:
  assumes "0 < remaining s" and "it s = None" and "\<not> exc_check s e" and "e \<noteq> StopIteration"
    and "cb s w = Inr (Generator (map Yield ys @ Raise e # es))"
    and "length ys \<le> length (items s)"
    and "list_all2 (same to_dict py_eq) (take (length ys) (items s)) ys"
  shows "iter_next to_dict py_eq (s, w) = (Inl e, s\<lparr>it := Some (Generator [])\<rparr>, Suc w)"
proof (cases "length ys < length (items s)")
  case True
  from replay_raise [OF assms(7) True, of e es] assms(3,4,5)
  have "recreate to_dict py_eq s w = (Propagate e, s\<lparr>it := Some (Generator [])\<rparr>, Suc w)"
    by (simp add: recreate_def)
  from iter_next_recreate_propagate [OF assms(1,2) this] show ?thesis .
next
  case False
  with assms(6) have len: "length ys = length (items s)" by simp
  with assms(7) have "list_all2 (same to_dict py_eq) (items s) ys" by simp
  from replay_all_confirmed [OF this, of 0 "Raise e # es"] assms(5)
  have rc: "recreate to_dict py_eq s w =
      (Proceed (Generator (Raise e # es)), s\<lparr>it := Some (Generator (Raise e # es))\<rparr>, Suc w)"
    by (simp add: recreate_def)
  have "iter_next to_dict py_eq (s\<lparr>it := Some (Generator (Raise e # es))\<rparr>, Suc w) =
      (Inl e, s\<lparr>it := Some (Generator (Raise e # es))\<rparr>\<lparr>it := Some (Generator [])\<rparr>, Suc w)"
    using assms(1,3)
    by (intro iter_next_raise [where g = "Generator (Raise e # es)"]) simp_all
  with iter_next_recreate_proceed [OF assms(1,2) rc] show ?thesis by simp
qed

section \<open>Exceptions outside the retried class\<close>

text \<open>
  Claim C6. An exception \<open>e\<close> that is not of the class \<^verbatim>\<open>exc_check\<close> goes to the caller
  as it is, the callback is not called again and \<open>remaining\<close> keeps its value:
  \<^item> raised by a call of the decorated function in \<^verbatim>\<open>retry\<close>, after \<open>k\<close> calls that raised
    retried exceptions: the wrapper raises \<open>e\<close>, and that call was the last;
  \<^item> raised by the callback when \<^verbatim>\<open>__next__\<close> recreates the iterator: \<^verbatim>\<open>__next__\<close> raises
    \<open>e\<close> and the iterator is unchanged;
  \<^item> raised by the recreated generator while the sent items are replayed, or at the first
    new item after them (here \<open>e\<close> is an exception proper, not the \<^verbatim>\<open>StopIteration\<close> that
    ends a generator): \<^verbatim>\<open>__next__\<close> raises \<open>e\<close>;
  \<^item> raised by the current generator: \<^verbatim>\<open>__next__\<close> raises \<open>e\<close>.
\<close>

theorem other_exceptions_propagate:
  assumes "\<not> check e"
  shows "((\<forall>j<k. \<exists>t. func_cb (w + j) = Inl t \<and> check t) \<and> int k < tries \<and> func_cb (w + k) = Inl e
            \<longrightarrow> retry check tries func_cb w = (Inl e, w + k + 1)) \<and>
         (0 < remaining s \<and> exc_check s = check \<and> it s = None \<and> cb s w = Inl e
            \<longrightarrow> iter_next to_dict py_eq (s, w) = (Inl e, s, Suc w)) \<and>
         (0 < remaining s \<and> exc_check s = check \<and> it s = None \<and> e \<noteq> StopIteration \<and>
          cb s w = Inr (Generator (map Yield ys @ Raise e # es)) \<and>
          length ys \<le> length (items s) \<and>
          list_all2 (same to_dict py_eq) (take (length ys) (items s)) ys
            \<longrightarrow> iter_next to_dict py_eq (s, w) = (Inl e, s\<lparr>it := Some (Generator [])\<rparr>, Suc w)) \<and>
         (0 < remaining s \<and> exc_check s = check \<and> it s = Some g \<and> next_py g = (Inl e, g')
            \<longrightarrow> iter_next to_dict py_eq (s, w) = (Inl e, s\<lparr>it := Some g'\<rparr>, w))"
proof (intro conjI impI)
  assume a: "(\<forall>j<k. \<exists>t. func_cb (w + j) = Inl t \<and> check t) \<and> int k < tries \<and> func_cb (w + k) = Inl e"
  then have "retry_loop func_cb check tries w = retry_loop func_cb check (tries - int k) (w + k)"
    by (intro retry_loop_skip) simp_all
  also have "\<dots> = (Inl e, Suc (w + k))"
    using a assms by (intro retry_loop_propagate) simp_all
  finally show "retry check tries func_cb w = (Inl e, w + k + 1)"
    by (simp add: retry_def)
next
  assume a: "0 < remaining s \<and> exc_check s = check \<and> it s = None \<and> cb s w = Inl e"
  then have "recreate to_dict py_eq s w = (Propagate e, s, Suc w)"
    by (simp add: recreate_def)
  with a show "iter_next to_dict py_eq (s, w) = (Inl e, s, Suc w)"
    by (simp add: iter_next_recreate_propagate)
next
  assume "0 < remaining s \<and> exc_check s = check \<and> it s = None \<and> e \<noteq> StopIteration \<and>
          cb s w = Inr (Generator (map Yield ys @ Raise e # es)) \<and>
          length ys \<le> length (items s) \<and>
          list_all2 (same to_dict py_eq) (take (length ys) (items s)) ys"
  then have h: "0 < remaining s" "exc_check s = check" "it s = None" "e \<noteq> StopIteration"
    "cb s w = Inr (Generator (map Yield ys @ Raise e # es))"
    "length ys \<le> length (items s)"
    "list_all2 (same to_dict py_eq) (take (length ys) (items s)) ys"
    by blast+
  from assms h(2) have "\<not> exc_check s e" by simp
  from iter_next_replay_raise [OF h(1) h(3) this h(4) h(5) h(6) h(7)]
  show "iter_next to_dict py_eq (s, w) = (Inl e, s\<lparr>it := Some (Generator [])\<rparr>, Suc w)" .
next
  assume "0 < remaining s \<and> exc_check s = check \<and> it s = Some g \<and> next_py g = (Inl e, g')"
  then have h: "0 < remaining s" "exc_check s = check" "it s = Some g" "next_py g = (Inl e, g')"
    by blast+
  from assms h(2) have "\<not> exc_check s e" by simp
  from iter_next_raise [OF h(1) h(3) h(4) this]
  show "iter_next to_dict py_eq (s, w) = (Inl e, s\<lparr>it := Some g'\<rparr>, w)" .
qed


theorem other_exceptions_propagate_witness:
  "\<not> LoggedOut_check (BrowserIncorrectPassword :: acct exn) \<and>
   retry LoggedOut_check 4
     (\<lambda>n. if n = 0 then Inl LoggedOut else Inl BrowserIncorrectPassword :: acct exn + acct pyobj) 0
     = (Inl BrowserIncorrectPassword, 2) \<and>
   iter_next acct_to_dict (=) (replaying (\<lambda>n. Inl BrowserIncorrectPassword), 1)
     = (Inl BrowserIncorrectPassword, replaying (\<lambda>n. Inl BrowserIncorrectPassword), 2) \<and>
   fst (iter_next acct_to_dict (=)
     (replaying (\<lambda>n. Inr (Generator (map Yield [Acct 1 ''A''] @ Raise BrowserIncorrectPassword # []))), 1))
     = Inl BrowserIncorrectPassword \<and>
   fst (iter_next acct_to_dict (=)
     ((replaying (\<lambda>n. Inl LoggedOut))\<lparr>it := Some (Generator [Raise BrowserIncorrectPassword])\<rparr>, 1))
     = Inl BrowserIncorrectPassword"
proof -
  have n: "\<not> LoggedOut_check (BrowserIncorrectPassword :: acct exn)"
    by (simp add: LoggedOut_check_def)
  have a: "retry LoggedOut_check 4
     (\<lambda>n. if n = 0 then Inl LoggedOut else Inl BrowserIncorrectPassword :: acct exn + acct pyobj) 0
     = (Inl BrowserIncorrectPassword, 2)"
    using other_exceptions_propagate [where check = LoggedOut_check and e = BrowserIncorrectPassword and k = 1 and w = 0 and tries = 4
        and func_cb = "\<lambda>n. if n = 0 then Inl LoggedOut else Inl BrowserIncorrectPassword", OF n, THEN conjunct1]
    by (simp add: LoggedOut_check_def)
  have b: "iter_next acct_to_dict (=) (replaying (\<lambda>n. Inl BrowserIncorrectPassword), 1)
     = (Inl BrowserIncorrectPassword, replaying (\<lambda>n. Inl BrowserIncorrectPassword), 2)"
    using other_exceptions_propagate [where check = LoggedOut_check and e = BrowserIncorrectPassword and w = 1
        and s = "replaying (\<lambda>n. Inl BrowserIncorrectPassword)"
        and to_dict = acct_to_dict and py_eq = "(=)", OF n, THEN conjunct2, THEN conjunct1]
    by (simp add: replaying_def)
  have c: "fst (iter_next acct_to_dict (=)
     (replaying (\<lambda>n. Inr (Generator (map Yield [Acct 1 ''A''] @ Raise BrowserIncorrectPassword # []))), 1))
     = Inl BrowserIncorrectPassword"
    using other_exceptions_propagate [where check = LoggedOut_check and e = BrowserIncorrectPassword and w = 1 and ys = "[Acct 1 ''A'']" and es = "[]"
        and s = "replaying (\<lambda>n. Inr (Generator (map Yield [Acct 1 ''A''] @ Raise BrowserIncorrectPassword # [])))"
        and to_dict = acct_to_dict and py_eq = "(=)", OF n, THEN conjunct2, THEN conjunct2, THEN conjunct1]
    by (simp add: replaying_def same_def records_equal_def)
  have d: "fst (iter_next acct_to_dict (=)
     ((replaying (\<lambda>n. Inl LoggedOut))\<lparr>it := Some (Generator [Raise BrowserIncorrectPassword])\<rparr>, 1))
     = Inl BrowserIncorrectPassword"
    using other_exceptions_propagate [where check = LoggedOut_check and e = BrowserIncorrectPassword and w = 1
        and g = "Generator [Raise BrowserIncorrectPassword]" and g' = "Generator []"
        and s = "(replaying (\<lambda>n. Inl LoggedOut))\<lparr>it := Some (Generator [Raise BrowserIncorrectPassword])\<rparr>"
        and to_dict = acct_to_dict and py_eq = "(=)", OF n, THEN conjunct2, THEN conjunct2, THEN conjunct2]
    by (simp add: replaying_def)
  from n a b c d show ?thesis by blast
qed

section \<open>Schedules of retried failures\<close>

text \<open>
  A run of the decorated method that fails midway: its generator yields the first records
  of the list \<open>xs\<close> that the site holds, in their order, and then raises an exception of
  the retried class. \<open>yields\<close> is what such a generator yields before it raises.
\<close>

fun cut_short :: "('a exn \<Rightarrow> bool) \<Rightarrow> 'a list \<Rightarrow> 'a event list \<Rightarrow> bool" where
  "cut_short check xs (Raise e # es) = check e"
| "cut_short check (x # xs) (Yield a # es) = (a = x \<and> cut_short check xs es)"
| "cut_short check xs es = False"

fun yields :: "'a event list \<Rightarrow> 'a list" where
  "yields (Yield a # es) = a # yields es"
| "yields es = []"

definition fails_midway :: "('a exn \<Rightarrow> bool) \<Rightarrow> 'a list \<Rightarrow> 'a exn + 'a pyobj \<Rightarrow> bool" where
  "fails_midway check xs r =
     (case r of Inr (Generator es) \<Rightarrow> cut_short check xs es | _ \<Rightarrow> False)"

lemma fails_midwayE:
  assumes "fails_midway check xs r"
  obtains es where "r = Inr (Generator es)" and "cut_short check xs es"
  using assms by (auto simp: fails_midway_def split: sum.splits pyobj.splits)

lemma cut_short_yields: "cut_short check xs es \<Longrightarrow> \<exists>rest. xs = yields es @ rest"
  by (induction check xs es rule: cut_short.induct) auto

lemma replay_cut_short:
  assumes "cut_short check (pre @ rest) es"
    and "list_all (\<lambda>x. same to_dict py_eq x x) pre"
  shows "(\<exists>n e g. replay to_dict py_eq nb pre (Generator es) = (Some (n, e), g) \<and> check e) \<or>
         (\<exists>es'. replay to_dict py_eq nb pre (Generator es) = (None, Generator es') \<and>
                cut_short check rest es')"
  using assms
proof (induction pre arbitrary: es nb)
  case Nil
  then show ?case by simp
next
  case (Cons x pre)
  show ?case
  proof (cases es)
    case Nil
    with Cons.prems show ?thesis by simp
  next
    case (Cons ev es2)
    show ?thesis
    proof (cases ev)
      case (Raise e)
      with Cons Cons.prems show ?thesis by simp
    next
      case (Yield a)
      with Cons Cons.prems have a: "a = x" "cut_short check (pre @ rest) es2"
        "same to_dict py_eq x x" "list_all (\<lambda>x. same to_dict py_eq x x) pre"
        by simp_all
      from Cons.IH [OF a(2) a(4), of "Suc nb"] a(1,3) Cons Yield
      show ?thesis by (simp add: same_def)
    qed
  qed
qed


lemma consume_full:
  "0 < remaining s \<Longrightarrow> \<not> exc_check s StopIteration \<Longrightarrow>
   it s = Some (Generator (map Yield rest)) \<Longrightarrow>
   consume to_dict py_eq (s, w) =
     (rest, StopIteration, s\<lparr>it := Some (Generator []), items := items s @ rest\<rparr>, w)"
proof (induction rest arbitrary: s)
  case Nil
  then have "iter_next to_dict py_eq (s, w) = (Inl StopIteration, s\<lparr>it := Some (Generator [])\<rparr>, w)"
    by (intro iter_next_raise [where g = "Generator []"]) simp_all
  then show ?case by (simp add: consume_raise)
next
  case (Cons a rest)
  let ?s1 = "s\<lparr>it := Some (Generator (map Yield rest)), items := items s @ [a]\<rparr>"
  from Cons.prems have "iter_next to_dict py_eq (s, w) = (Inr a, ?s1, w)"
    by (intro iter_next_yield [where g = "Generator (map Yield (a # rest))"]) simp_all
  from consume_yield [OF this] Cons.IH [of ?s1] Cons.prems
  show ?case by simp
qed

lemma consume_cut_short:
  "0 < remaining s \<Longrightarrow> it s = Some (Generator es) \<Longrightarrow> cut_short (exc_check s) rest es \<Longrightarrow>
   consume to_dict py_eq (s, w) =
     (yields es @ fst (consume to_dict py_eq
         (s\<lparr>it := None, items := items s @ yields es, remaining := remaining s - 1\<rparr>, w)),
      snd (consume to_dict py_eq
         (s\<lparr>it := None, items := items s @ yields es, remaining := remaining s - 1\<rparr>, w)))"
proof (induction es arbitrary: s rest)
  case Nil
  then show ?case by simp
next
  case (Cons ev es)
  show ?case
  proof (cases ev)
    case (Raise e)
    with Cons.prems have "iter_next to_dict py_eq (s, w) =
        iter_next to_dict py_eq (s\<lparr>it := None, remaining := remaining s - 1\<rparr>, w)"
      by (intro iter_next_retry [where g = "Generator (Raise e # es)" and e = e]) simp_all
    from consume_cong [OF this] Raise show ?thesis by simp
  next
    case (Yield a)
    with Cons.prems obtain rest2 where r: "rest = a # rest2" "cut_short (exc_check s) rest2 es"
      by (cases rest) simp_all
    let ?s1 = "s\<lparr>it := Some (Generator es), items := items s @ [a]\<rparr>"
    from Cons.prems Yield have "iter_next to_dict py_eq (s, w) = (Inr a, ?s1, w)"
      by (intro iter_next_yield [where g = "Generator (Yield a # es)"]) simp_all
    from consume_yield [OF this] Cons.IH [of ?s1 rest2] Cons.prems r Yield
    show ?thesis by simp
  qed
qed

lemma consume_started:
  assumes "0 < remaining s" and "items s = []" and "it s = Some g" and "cb s w = Inr g"
  shows "consume to_dict py_eq (s, Suc w) = consume to_dict py_eq (s\<lparr>it := None\<rparr>, w)"
proof -
  from assms have "recreate to_dict py_eq (s\<lparr>it := None\<rparr>) w =
      (Proceed g, s\<lparr>it := None\<rparr>\<lparr>it := Some g\<rparr>, Suc w)"
    by (simp add: recreate_def)
  moreover have "s\<lparr>it := None\<rparr>\<lparr>it := Some g\<rparr> = s" using assms(3) by simp
  ultimately have "recreate to_dict py_eq (s\<lparr>it := None\<rparr>) w = (Proceed g, s, Suc w)" by simp
  from iter_next_recreate_proceed [OF _ _ this] assms(1)
  have "iter_next to_dict py_eq (s\<lparr>it := None\<rparr>, w) = iter_next to_dict py_eq (s, Suc w)" by simp
  from consume_cong [OF this] show ?thesis by simp
qed


lemma resume_step:
  assumes "0 < remaining s" and "it s = None" and "\<not> exc_check s StopIteration"
    and "cb s w = Inr (Generator es)"
    and "cut_short (exc_check s) (items s @ rest) es"
    and "list_all (\<lambda>x. same to_dict py_eq x x) (items s)"
  shows "\<exists>ys rest'. rest = ys @ rest' \<and>
     consume to_dict py_eq (s, w) =
       (ys @ fst (consume to_dict py_eq
           (s\<lparr>it := None, items := items s @ ys, remaining := remaining s - 1\<rparr>, Suc w)),
        snd (consume to_dict py_eq
           (s\<lparr>it := None, items := items s @ ys, remaining := remaining s - 1\<rparr>, Suc w)))"
proof -
  from replay_cut_short [OF assms(5,6), of 0]
  consider (raised) n e g where "replay to_dict py_eq 0 (items s) (Generator es) = (Some (n, e), g)"
      "exc_check s e"
    | (confirmed) es' where "replay to_dict py_eq 0 (items s) (Generator es) = (None, Generator es')"
      "cut_short (exc_check s) rest es'"
    by blast
  then show ?thesis
  proof cases
    case raised
    with assms(3) have "e \<noteq> StopIteration" by auto
    with raised assms(4) have "recreate to_dict py_eq s w =
        (Again, s\<lparr>it := None, remaining := remaining s - 1\<rparr>, Suc w)"
      by (simp add: recreate_def)
    from iter_next_recreate_again [OF assms(1,2) this]
    have "consume to_dict py_eq (s, w) =
         consume to_dict py_eq (s\<lparr>it := None, remaining := remaining s - 1\<rparr>, Suc w)"
      by (rule consume_cong)
    then have "rest = [] @ rest \<and> consume to_dict py_eq (s, w) =
       ([] @ fst (consume to_dict py_eq
           (s\<lparr>it := None, items := items s @ [], remaining := remaining s - 1\<rparr>, Suc w)),
        snd (consume to_dict py_eq
           (s\<lparr>it := None, items := items s @ [], remaining := remaining s - 1\<rparr>, Suc w)))"
      by simp
    then show ?thesis by blast
  next
    case confirmed
    let ?s2 = "s\<lparr>it := Some (Generator es')\<rparr>"
    from confirmed assms(4) have "recreate to_dict py_eq s w = (Proceed (Generator es'), ?s2, Suc w)"
      by (simp add: recreate_def)
    from iter_next_recreate_proceed [OF assms(1,2) this]
    have "consume to_dict py_eq (s, w) = consume to_dict py_eq (?s2, Suc w)"
      by (rule consume_cong)
    moreover have "consume to_dict py_eq (?s2, Suc w) =
       (yields es' @ fst (consume to_dict py_eq
           (?s2\<lparr>it := None, items := items ?s2 @ yields es', remaining := remaining ?s2 - 1\<rparr>, Suc w)),
        snd (consume to_dict py_eq
           (?s2\<lparr>it := None, items := items ?s2 @ yields es', remaining := remaining ?s2 - 1\<rparr>, Suc w)))"
      using assms(1) confirmed(2)
      by (intro consume_cut_short [where rest = rest]) simp_all
    moreover from cut_short_yields [OF confirmed(2)] obtain rest' where "rest = yields es' @ rest'"
      by blast
    ultimately have "rest = yields es' @ rest' \<and> consume to_dict py_eq (s, w) =
       (yields es' @ fst (consume to_dict py_eq
           (s\<lparr>it := None, items := items s @ yields es', remaining := remaining s - 1\<rparr>, Suc w)),
        snd (consume to_dict py_eq
           (s\<lparr>it := None, items := items s @ yields es', remaining := remaining s - 1\<rparr>, Suc w)))"
      by simp
    then show ?thesis by blast
  qed
qed


lemma resume_success:
  assumes nostop: "\<not> check StopIteration"
    and refl: "list_all (\<lambda>x. same to_dict py_eq x x) xs"
  shows "it s = None \<Longrightarrow> exc_check s = check \<Longrightarrow> cb s = func_cb \<Longrightarrow> xs = items s @ rest \<Longrightarrow>
     int f < remaining s \<Longrightarrow> \<forall>j<f. fails_midway check xs (func_cb (w + j)) \<Longrightarrow>
     func_cb (w + f) = Inr (Generator (map Yield xs)) \<Longrightarrow>
     \<exists>s'. consume to_dict py_eq (s, w) = (rest, StopIteration, s', w + f + 1) \<and> items s' = xs"
proof (induction f arbitrary: s w rest)
  case 0
  from refl "0.prems"(4) have "list_all2 (same to_dict py_eq) (items s) (items s)"
    by (simp add: list_all2_same list_all_iff)
  from replay_all_confirmed [OF this, of 0 "map Yield rest"] "0.prems"
  have "recreate to_dict py_eq s w =
      (Proceed (Generator (map Yield rest)), s\<lparr>it := Some (Generator (map Yield rest))\<rparr>, Suc w)"
    by (simp add: recreate_def)
  from iter_next_recreate_proceed [OF _ "0.prems"(1) this] "0.prems"(5)
  have "consume to_dict py_eq (s, w) =
      consume to_dict py_eq (s\<lparr>it := Some (Generator (map Yield rest))\<rparr>, Suc w)"
    by (intro consume_cong) simp
  also have "\<dots> = (rest, StopIteration,
      s\<lparr>it := Some (Generator (map Yield rest))\<rparr>
       \<lparr>it := Some (Generator []),
         items := items (s\<lparr>it := Some (Generator (map Yield rest))\<rparr>) @ rest\<rparr>, Suc w)"
    using "0.prems" nostop by (intro consume_full) simp_all
  finally show ?case using "0.prems"(4) by simp
next
  case (Suc f)
  from Suc.prems(6) have "fails_midway check xs (func_cb (w + 0))" by blast
  then obtain es where es: "func_cb w = Inr (Generator es)" "cut_short check xs es"
    by (auto elim: fails_midwayE)
  from refl Suc.prems(4) have own: "list_all (\<lambda>x. same to_dict py_eq x x) (items s)" by simp
  from Suc.prems(5) have pos: "0 < remaining s" by simp
  from resume_step [OF pos Suc.prems(1) _ _ _ own, of w es rest] nostop es Suc.prems(2,3,4)
  obtain ys rest' where st: "rest = ys @ rest'"
     "consume to_dict py_eq (s, w) =
       (ys @ fst (consume to_dict py_eq
           (s\<lparr>it := None, items := items s @ ys, remaining := remaining s - 1\<rparr>, Suc w)),
        snd (consume to_dict py_eq
           (s\<lparr>it := None, items := items s @ ys, remaining := remaining s - 1\<rparr>, Suc w)))"
    by auto
  let ?s1 = "s\<lparr>it := None, items := items s @ ys, remaining := remaining s - 1\<rparr>"
  have "\<exists>s'. consume to_dict py_eq (?s1, Suc w) = (rest', StopIteration, s', Suc w + f + 1) \<and>
      items s' = xs"
  proof (rule Suc.IH)
    show "it ?s1 = None" "exc_check ?s1 = check" "cb ?s1 = func_cb"
      using Suc.prems by simp_all
    show "xs = items ?s1 @ rest'" using Suc.prems(4) st(1) by simp
    show "int f < remaining ?s1" using Suc.prems(5) by simp
    show "\<forall>j<f. fails_midway check xs (func_cb (Suc w + j))"
      using Suc.prems(6) by (metis Suc_less_eq add_Suc_shift)
    show "func_cb (Suc w + f) = Inr (Generator (map Yield xs))"
      using Suc.prems(7) by simp
  qed
  with st show ?case by auto
qed

lemma resume_exhausted:
  assumes nostop: "\<not> check StopIteration"
    and refl: "list_all (\<lambda>x. same to_dict py_eq x x) xs"
  shows "it s = None \<Longrightarrow> exc_check s = check \<Longrightarrow> cb s = func_cb \<Longrightarrow> xs = items s @ rest \<Longrightarrow>
     remaining s = int r \<Longrightarrow> \<forall>j<r. fails_midway check xs (func_cb (w + j)) \<Longrightarrow>
     \<exists>obs s' rest'. consume to_dict py_eq (s, w) = (obs, ExhaustedRetries, s', w + r) \<and>
        rest = obs @ rest'"
proof (induction r arbitrary: s w rest)
  case 0
  then have "iter_next to_dict py_eq (s, w) = (Inl ExhaustedRetries, s, w)"
    by (intro iter_next_exhausted) simp
  from consume_raise [OF this] show ?case by simp
next
  case (Suc r)
  from Suc.prems(6) have "fails_midway check xs (func_cb (w + 0))" by blast
  then obtain es where es: "func_cb w = Inr (Generator es)" "cut_short check xs es"
    by (auto elim: fails_midwayE)
  from refl Suc.prems(4) have own: "list_all (\<lambda>x. same to_dict py_eq x x) (items s)" by simp
  from Suc.prems(5) have pos: "0 < remaining s" by simp
  from resume_step [OF pos Suc.prems(1) _ _ _ own, of w es rest] nostop es Suc.prems(2,3,4)
  obtain ys rest' where st: "rest = ys @ rest'"
     "consume to_dict py_eq (s, w) =
       (ys @ fst (consume to_dict py_eq
           (s\<lparr>it := None, items := items s @ ys, remaining := remaining s - 1\<rparr>, Suc w)),
        snd (consume to_dict py_eq
           (s\<lparr>it := None, items := items s @ ys, remaining := remaining s - 1\<rparr>, Suc w)))"
    by auto
  let ?s1 = "s\<lparr>it := None, items := items s @ ys, remaining := remaining s - 1\<rparr>"
  have "\<exists>obs s' rest''. consume to_dict py_eq (?s1, Suc w) = (obs, ExhaustedRetries, s', Suc w + r) \<and>
      rest' = obs @ rest''"
  proof (rule Suc.IH)
    show "it ?s1 = None" "exc_check ?s1 = check" "cb ?s1 = func_cb"
      using Suc.prems by simp_all
    show "xs = items ?s1 @ rest'" using Suc.prems(4) st(1) by simp
    show "remaining ?s1 = int r" using Suc.prems(5) by simp
    show "\<forall>j<r. fails_midway check xs (func_cb (Suc w + j))"
      using Suc.prems(6) by (metis Suc_less_eq add_Suc_shift)
  qed
  with st show ?case by auto
qed


lemma retry_started:
  assumes "\<forall>j<k. \<exists>e. func_cb (w + j) = Inl e \<and> check e" and "int k < tries"
    and "func_cb (w + k) = Inr (Generator es)"
  shows "retry check tries func_cb w =
     (Inr (Wrapped \<lparr>cb = func_cb, it = Some (Generator es), items = [],
                      remaining = tries - int k, exc_check = check\<rparr>), Suc (w + k))"
proof -
  from assms(1,2) have "retry_loop func_cb check tries w =
      retry_loop func_cb check (tries - int k) (w + k)"
    by (intro retry_loop_skip) simp_all
  also from assms(2,3) have "\<dots> =
     (Inr (Wrapped \<lparr>cb = func_cb, it = Some (Generator es), items = [],
                      remaining = tries - int k, exc_check = check\<rparr>), Suc (w + k))"
    by (intro retry_loop_generator) simp_all
  finally show ?thesis by (simp add: retry_def)
qed

lemma wrapped_success:
  assumes "\<not> check StopIteration" and "list_all (\<lambda>x. same to_dict py_eq x x) xs"
    and "\<forall>j<f. fails_midway check xs (func_cb (w + j))"
    and "func_cb (w + f) = Inr (Generator (map Yield xs))"
    and "int f < r" and "func_cb w = Inr (Generator es)"
  shows "\<exists>s'. consume to_dict py_eq
      (\<lparr>cb = func_cb, it = Some (Generator es), items = [], remaining = r, exc_check = check\<rparr>,
       Suc w) = (xs, StopIteration, s', w + f + 1)"
proof -
  let ?s = "\<lparr>cb = func_cb, it = Some (Generator es), items = [], remaining = r, exc_check = check\<rparr>"
  from assms(5,6) have "consume to_dict py_eq (?s, Suc w) = consume to_dict py_eq (?s\<lparr>it := None\<rparr>, w)"
    by (intro consume_started [where g = "Generator es"]) simp_all
  moreover from assms(3,4,5)
  have "\<exists>s'. consume to_dict py_eq (?s\<lparr>it := None\<rparr>, w) = (xs, StopIteration, s', w + f + 1) \<and>
      items s' = xs"
    using assms(1,2)
    by (intro resume_success [where check = check and func_cb = func_cb and xs = xs
          and to_dict = to_dict and py_eq = py_eq]) simp_all
  ultimately show ?thesis by auto
qed

lemma wrapped_exhausted:
  assumes "\<not> check StopIteration" and "list_all (\<lambda>x. same to_dict py_eq x x) xs"
    and "\<forall>j<n. fails_midway check xs (func_cb (w + j))"
    and "0 < n" and "func_cb w = Inr (Generator es)"
  shows "\<exists>obs s'. consume to_dict py_eq
      (\<lparr>cb = func_cb, it = Some (Generator es), items = [], remaining = int n, exc_check = check\<rparr>,
       Suc w) = (obs, ExhaustedRetries, s', w + n) \<and> prefix obs xs"
proof -
  let ?s = "\<lparr>cb = func_cb, it = Some (Generator es), items = [], remaining = int n, exc_check = check\<rparr>"
  from assms(4,5) have "consume to_dict py_eq (?s, Suc w) = consume to_dict py_eq (?s\<lparr>it := None\<rparr>, w)"
    by (intro consume_started [where g = "Generator es"]) simp_all
  moreover from assms(3)
  have "\<exists>obs s' rest'. consume to_dict py_eq (?s\<lparr>it := None\<rparr>, w) = (obs, ExhaustedRetries, s', w + n) \<and>
      xs = obs @ rest'"
    using assms(1,2)
    by (intro resume_exhausted [where check = check and func_cb = func_cb and xs = xs
          and to_dict = to_dict and py_eq = py_eq]) simp_all
  ultimately show ?thesis by (auto simp: prefix_def)
qed

text \<open>
  How often the iteration over \<open>s\<close> recreates the generator: the calls of the callback that
  \<^verbatim>\<open>__next__\<close> makes until the consumer's loop is over. The call that created the first
  generator was made by \<^verbatim>\<open>retry\<close> and is not among them.
\<close>

definition recreations ::
  "('a \<Rightarrow> 'd option) \<Rightarrow> ('a \<Rightarrow> 'a \<Rightarrow> bool) \<Rightarrow> 'a iter_retry \<Rightarrow> nat \<Rightarrow> nat" where
  "recreations to_dict py_eq s w = snd (snd (snd (consume to_dict py_eq (s, w)))) - w"

text \<open>
  The call at line 409 that recreates the generator is outside the \<^verbatim>\<open>try\<close>: an exception of
  the callback itself, of the retried class or not, leaves \<^verbatim>\<open>__next__\<close> at once. The schedules
  of the claims below have no such call after the first generator was returned.
\<close>

lemma iter_next_recreate_raises:
  assumes "0 < remaining s" and "it s = None" and "cb s w = Inl e"
  shows "iter_next to_dict py_eq (s, w) = (Inl e, s, Suc w)"
proof -
  from assms(3) have "recreate to_dict py_eq s w = (Propagate e, s, Suc w)"
    by (simp add: recreate_def)
  from iter_next_recreate_propagate [OF assms(1,2) this] show ?thesis .
qed

section \<open>The consumer's view\<close>

text \<open>
  Claim C1. The decorated method lists the records \<open>xs\<close>. Its first \<open>k\<close> calls raise
  an exception of the retried class, the next \<open>f\<close> runs each yield some first records of
  \<open>xs\<close> and then raise an exception of the retried class, at any point, also before the
  records already sent have been replayed, and the run after them yields all of \<open>xs\<close>.
  When these are fewer failures than the budget, \<open>k + f < tries\<close>, the wrapper returns an
  iterator, and a consumer that iterates over it receives exactly \<open>xs\<close>, each record once and
  in the order of the site, and the iteration ends normally. The records are compared as the
  replay compares them, so each record is assumed equal to itself under that comparison, and
  the end of a generator is assumed not to be of the retried class.
\<close>

theorem no_duplication:
  assumes "\<not> check StopIteration"
    and "list_all (\<lambda>x. same to_dict py_eq x x) xs"
    and "\<forall>j<k. \<exists>e. func_cb (w + j) = Inl e \<and> check e"
    and "\<forall>j<f. fails_midway check xs (func_cb (w + k + j))"
    and "func_cb (w + k + f) = Inr (Generator (map Yield xs))"
    and "int (k + f) < tries"
  shows "\<exists>s s'. retry check tries func_cb w = (Inr (Wrapped s), w + k + 1) \<and>
           consume to_dict py_eq (s, w + k + 1) = (xs, StopIteration, s', w + k + f + 1)"
proof -
  obtain es where es: "func_cb (w + k) = Inr (Generator es)"
  proof (cases f)
    case 0
    with assms(5) that show ?thesis by simp
  next
    case (Suc f')
    with assms(4) have "fails_midway check xs (func_cb (w + k + 0))" by blast
    with that show ?thesis by (auto elim: fails_midwayE)
  qed
  from assms(6) have k: "int k < tries" by simp
  from assms(6) have f: "int f < tries - int k" by simp
  from wrapped_success [OF assms(1,2,4,5) f es]
  obtain s' where "consume to_dict py_eq
      (\<lparr>cb = func_cb, it = Some (Generator es), items = [], remaining = tries - int k,
        exc_check = check\<rparr>, Suc (w + k)) = (xs, StopIteration, s', w + k + f + 1)"
    by blast
  with retry_started [OF assms(3) k es] show ?thesis by auto
qed

text \<open>
  Claim C4, as amended. When every attempt fails with an exception of the retried class (the
  first \<open>k\<close> calls raise, and every later run yields some first records of \<open>xs\<close> and then
  raises), iterating over the wrapper's result ends with \<^verbatim>\<open>BrowserUnavailable\<close> ('Site did not
  reply successfully after multiple tries') when the decorated method has been called
  exactly \<open>tries\<close> times in all: \<open>k\<close> calls that raised, the call that created the first
  generator, and \<open>tries - k - 1\<close> recreations. What the consumer has received is a prefix of
  \<open>xs\<close>. When each of the \<open>tries\<close> calls itself raises, the wrapper raises the same exception
  after exactly \<open>tries\<close> calls.
\<close>

theorem budget_exhaustion:
  assumes "\<not> check StopIteration"
    and "list_all (\<lambda>x. same to_dict py_eq x x) xs"
  shows "((\<forall>j<k. \<exists>e. func_cb (w + j) = Inl e \<and> check e) \<and> int k < tries \<and>
          (\<forall>j. int (k + j) < tries \<longrightarrow> fails_midway check xs (func_cb (w + k + j)))
          \<longrightarrow> (\<exists>s obs s'. retry check tries func_cb w = (Inr (Wrapped s), w + k + 1) \<and>
                 consume to_dict py_eq (s, w + k + 1) = (obs, ExhaustedRetries, s', w + nat tries) \<and>
                 recreations to_dict py_eq s (w + k + 1) = nat tries - k - 1 \<and>
                 prefix obs xs)) \<and>
         (0 \<le> tries \<and> (\<forall>j. int j < tries \<longrightarrow> (\<exists>e. func_cb (w + j) = Inl e \<and> check e))
          \<longrightarrow> retry check tries func_cb w = (Inl ExhaustedRetries, w + nat tries))"
proof (intro conjI impI)
  assume a: "(\<forall>j<k. \<exists>e. func_cb (w + j) = Inl e \<and> check e) \<and> int k < tries \<and>
          (\<forall>j. int (k + j) < tries \<longrightarrow> fails_midway check xs (func_cb (w + k + j)))"
  then have init: "\<forall>j<k. \<exists>e. func_cb (w + j) = Inl e \<and> check e" and k: "int k < tries"
    and later: "\<forall>j. int (k + j) < tries \<longrightarrow> fails_midway check xs (func_cb (w + k + j))"
    by blast+
  define n where "n = nat (tries - int k)"
  from k have n: "0 < n" "int n = tries - int k" "w + k + n = w + nat tries"
    by (simp_all add: n_def nat_diff_distrib)
  from later n(2) have sched: "\<forall>j<n. fails_midway check xs (func_cb (w + k + j))" by simp
  with n(1) have "fails_midway check xs (func_cb (w + k + 0))" by blast
  then obtain es where es: "func_cb (w + k) = Inr (Generator es)"
    by (auto elim: fails_midwayE)
  from wrapped_exhausted [OF assms sched n(1) es] n(2,3)
  obtain obs s' where "consume to_dict py_eq
      (\<lparr>cb = func_cb, it = Some (Generator es), items = [], remaining = tries - int k,
        exc_check = check\<rparr>, Suc (w + k)) = (obs, ExhaustedRetries, s', w + nat tries)"
      "prefix obs xs"
    by auto
  with retry_started [OF init k es]
  show "\<exists>s obs s'. retry check tries func_cb w = (Inr (Wrapped s), w + k + 1) \<and>
                 consume to_dict py_eq (s, w + k + 1) = (obs, ExhaustedRetries, s', w + nat tries) \<and>
                 recreations to_dict py_eq s (w + k + 1) = nat tries - k - 1 \<and>
                 prefix obs xs"
    by (auto simp: recreations_def)
next
  assume a: "0 \<le> tries \<and> (\<forall>j. int j < tries \<longrightarrow> (\<exists>e. func_cb (w + j) = Inl e \<and> check e))"
  then have "\<forall>j<nat tries. \<exists>e. func_cb (w + j) = Inl e \<and> check e" by simp
  from retry_loop_skip [OF this, of tries] a
  show "retry check tries func_cb w = (Inl ExhaustedRetries, w + nat tries)"
    by (simp add: retry_def retry_loop_exhausted)
qed


text \<open>
  Claim C10. Failures of the call and failures during the iteration draw on one budget: when
  the first \<open>k\<close> calls raised an exception of the retried class and the next one returned a
  generator, the iterator starts with \<open>remaining = tries - k\<close>. From there, \<open>m\<close> runs that
  fail midway are recovered from when \<open>m \<le> tries - k - 1\<close>: the consumer receives all of
  \<open>xs\<close>. When \<open>tries - k\<close> runs in a row fail midway, the iteration ends with
  \<^verbatim>\<open>BrowserUnavailable\<close> ('Site did not reply successfully after multiple tries').
\<close>

theorem shared_budget:
  assumes "\<forall>j<k. \<exists>e. func_cb (w + j) = Inl e \<and> check e"
    and "int k < tries"
    and "func_cb (w + k) = Inr (Generator es)"
  shows "retry check tries func_cb w =
           (Inr (Wrapped \<lparr>cb = func_cb, it = Some (Generator es), items = [],
                            remaining = tries - int k, exc_check = check\<rparr>), w + k + 1) \<and>
         (\<not> check StopIteration \<and> list_all (\<lambda>x. same to_dict py_eq x x) xs \<and>
          int m \<le> tries - int k - 1 \<and>
          (\<forall>j<m. fails_midway check xs (func_cb (w + k + j))) \<and>
          func_cb (w + k + m) = Inr (Generator (map Yield xs))
          \<longrightarrow> (\<exists>s'. consume to_dict py_eq
                 (\<lparr>cb = func_cb, it = Some (Generator es), items = [],
                   remaining = tries - int k, exc_check = check\<rparr>, w + k + 1) =
                 (xs, StopIteration, s', w + k + m + 1))) \<and>
         (\<not> check StopIteration \<and> list_all (\<lambda>x. same to_dict py_eq x x) xs \<and>
          (\<forall>j. int j < tries - int k \<longrightarrow> fails_midway check xs (func_cb (w + k + j)))
          \<longrightarrow> (\<exists>obs s'. consume to_dict py_eq
                 (\<lparr>cb = func_cb, it = Some (Generator es), items = [],
                   remaining = tries - int k, exc_check = check\<rparr>, w + k + 1) =
                 (obs, ExhaustedRetries, s', w + nat tries)))"
proof (intro conjI impI)
  from retry_started [OF assms]
  show "retry check tries func_cb w =
           (Inr (Wrapped \<lparr>cb = func_cb, it = Some (Generator es), items = [],
                            remaining = tries - int k, exc_check = check\<rparr>), w + k + 1)"
    by simp
next
  assume "\<not> check StopIteration \<and> list_all (\<lambda>x. same to_dict py_eq x x) xs \<and>
          int m \<le> tries - int k - 1 \<and>
          (\<forall>j<m. fails_midway check xs (func_cb (w + k + j))) \<and>
          func_cb (w + k + m) = Inr (Generator (map Yield xs))"
  then have h: "\<not> check StopIteration" "list_all (\<lambda>x. same to_dict py_eq x x) xs"
    "int m < tries - int k" "\<forall>j<m. fails_midway check xs (func_cb (w + k + j))"
    "func_cb (w + k + m) = Inr (Generator (map Yield xs))"
    by auto
  from wrapped_success [OF h(1,2,4,5,3) assms(3)]
  show "\<exists>s'. consume to_dict py_eq
                 (\<lparr>cb = func_cb, it = Some (Generator es), items = [],
                   remaining = tries - int k, exc_check = check\<rparr>, w + k + 1) =
                 (xs, StopIteration, s', w + k + m + 1)"
    by simp
next
  assume "\<not> check StopIteration \<and> list_all (\<lambda>x. same to_dict py_eq x x) xs \<and>
          (\<forall>j. int j < tries - int k \<longrightarrow> fails_midway check xs (func_cb (w + k + j)))"
  then have h: "\<not> check StopIteration" "list_all (\<lambda>x. same to_dict py_eq x x) xs"
    "\<forall>j. int j < tries - int k \<longrightarrow> fails_midway check xs (func_cb (w + k + j))"
    by auto
  define n where "n = nat (tries - int k)"
  from assms(2) have n: "0 < n" "int n = tries - int k" "w + k + n = w + nat tries"
    by (simp_all add: n_def nat_diff_distrib)
  from h(3) n(2) have sched: "\<forall>j<n. fails_midway check xs (func_cb (w + k + j))" by simp
  from wrapped_exhausted [OF h(1,2) sched n(1) assms(3)] n(2,3)
  show "\<exists>obs s'. consume to_dict py_eq
                 (\<lparr>cb = func_cb, it = Some (Generator es), items = [],
                   remaining = tries - int k, exc_check = check\<rparr>, w + k + 1) =
                 (obs, ExhaustedRetries, s', w + nat tries)"
    by auto
qed

text \<open>
  The site of the examples: four accounts. \<open>flaky n\<close> is a run of the method that is logged
  out after \<open>n\<close> accounts, \<open>steady\<close> a run that lists them all.
\<close>

definition accounts :: "acct list" where
  "accounts = [Acct 1 ''A'', Acct 2 ''B'', Acct 3 ''C'', Acct 4 ''D'']"

definition flaky :: "nat \<Rightarrow> acct exn + acct pyobj" where
  "flaky n = Inr (Generator (map Yield (take n accounts) @ [Raise LoggedOut]))"

definition steady :: "acct exn + acct pyobj" where
  "steady = Inr (Generator (map Yield accounts))"

lemma accounts_same: "list_all (\<lambda>x. same acct_to_dict (=) x x) accounts"
  by (simp add: accounts_def same_def records_equal_def)

lemma cut_short_take:
  "cut_short check xs (map Yield (take n xs) @ [Raise e]) = check e"
proof (induction xs arbitrary: n)
  case Nil
  then show ?case by simp
next
  case (Cons x xs)
  then show ?case by (cases n) simp_all
qed

lemma flaky_fails_midway: "fails_midway LoggedOut_check accounts (flaky n)"
  by (simp add: fails_midway_def flaky_def cut_short_take LoggedOut_check_def)

definition flaky_once :: "nat \<Rightarrow> acct exn + acct pyobj" where
  "flaky_once n = (if n = 0 then flaky 2 else steady)"

definition flaky_always :: "nat \<Rightarrow> acct exn + acct pyobj" where
  "flaky_always n = (if n = 0 then Inl LoggedOut else flaky n)"

definition flaky_thrice :: "nat \<Rightarrow> acct exn + acct pyobj" where
  "flaky_thrice n = (if n = 0 then Inl LoggedOut else if n < 3 then flaky n else steady)"

theorem no_duplication_witness:
  "\<not> LoggedOut_check (StopIteration :: acct exn) \<and>
   list_all (\<lambda>x. same acct_to_dict (=) x x) accounts \<and>
   fails_midway LoggedOut_check accounts (flaky_once 0) \<and>
   flaky_once 1 = Inr (Generator (map Yield accounts)) \<and>
   (\<exists>s s'. retry LoggedOut_check 4 flaky_once 0 = (Inr (Wrapped s), 1) \<and>
      consume acct_to_dict (=) (s, 1) = (accounts, StopIteration, s', 2))"
proof -
  have a: "\<not> LoggedOut_check (StopIteration :: acct exn)" by (simp add: LoggedOut_check_def)
  have b: "\<forall>j<0. \<exists>e. flaky_once (0 + j) = Inl e \<and> LoggedOut_check e"
    by simp
  have c: "\<forall>j<1. fails_midway LoggedOut_check accounts (flaky_once (0 + 0 + j))"
    by (simp add: flaky_fails_midway flaky_once_def)
  have d: "flaky_once (0 + 0 + 1) = Inr (Generator (map Yield accounts))"
    by (simp add: steady_def flaky_once_def)
  have e: "int (0 + 1) < 4" by simp
  from no_duplication [OF a accounts_same b c d e] a accounts_same c d show ?thesis
    by (simp add: eval_nat_numeral)
qed

theorem budget_exhaustion_witness:
  "\<not> LoggedOut_check (StopIteration :: acct exn) \<and>
   list_all (\<lambda>x. same acct_to_dict (=) x x) accounts \<and>
   flaky_always 0 = Inl LoggedOut \<and> LoggedOut_check (LoggedOut :: acct exn) \<and>
   fails_midway LoggedOut_check accounts (flaky_always 1) \<and>
   fails_midway LoggedOut_check accounts (flaky_always 2) \<and>
   fails_midway LoggedOut_check accounts (flaky_always 3) \<and>
   (\<exists>s obs s'. retry LoggedOut_check 4 flaky_always 0 = (Inr (Wrapped s), 2) \<and>
      consume acct_to_dict (=) (s, 2) = (obs, ExhaustedRetries, s', 4) \<and>
      recreations acct_to_dict (=) s 2 = 2 \<and> prefix obs accounts) \<and>
   retry LoggedOut_check 4 (\<lambda>n. Inl LoggedOut :: acct exn + acct pyobj) 0 = (Inl ExhaustedRetries, 4)"
proof -
  have a: "\<not> LoggedOut_check (StopIteration :: acct exn)" by (simp add: LoggedOut_check_def)
  have b: "\<forall>j<1. \<exists>e. flaky_always (0 + j) = Inl e \<and> LoggedOut_check e"
    by (simp add: flaky_always_def LoggedOut_check_def)
  have c: "\<forall>j. int (1 + j) < 4 \<longrightarrow> fails_midway LoggedOut_check accounts (flaky_always (0 + 1 + j))"
    by (simp add: flaky_always_def flaky_fails_midway)
  have d: "\<forall>j. int j < 4 \<longrightarrow> (\<exists>e. (\<lambda>n. Inl LoggedOut :: acct exn + acct pyobj) (0 + j) = Inl e \<and> LoggedOut_check e)"
    by (simp add: LoggedOut_check_def)
  from budget_exhaustion [where check = LoggedOut_check and to_dict = acct_to_dict
      and py_eq = "(=)" and xs = accounts and k = 1 and w = 0 and tries = 4
      and func_cb = flaky_always, OF a accounts_same, THEN conjunct1] b c
  have e: "\<exists>s obs s'. retry LoggedOut_check 4 flaky_always 0 = (Inr (Wrapped s), 2) \<and>
      consume acct_to_dict (=) (s, 2) = (obs, ExhaustedRetries, s', 4) \<and>
      recreations acct_to_dict (=) s 2 = 2 \<and> prefix obs accounts"
    by (simp add: eval_nat_numeral)
  from budget_exhaustion [where check = LoggedOut_check and to_dict = acct_to_dict
      and py_eq = "(=)" and xs = accounts and w = 0 and tries = 4
      and func_cb = "\<lambda>n. Inl LoggedOut :: acct exn + acct pyobj",
      OF a accounts_same, THEN conjunct2] d
  have f: "retry LoggedOut_check 4 (\<lambda>n. Inl LoggedOut :: acct exn + acct pyobj) 0 = (Inl ExhaustedRetries, 4)"
    by (simp add: eval_nat_numeral)
  from a accounts_same e f show ?thesis
    by (simp add: flaky_always_def flaky_fails_midway LoggedOut_check_def)
qed

text \<open>
  With the default budget of 4 and every run logged out midway, the iteration ends with
  \<^verbatim>\<open>BrowserUnavailable\<close> after 3 recreations of the generator, not 4: the generator was
  created 4 times, once by \<^verbatim>\<open>retry\<close> and 3 times by \<^verbatim>\<open>__next__\<close>.
\<close>

theorem budget_exhaustion_counterexample:
  "retry LoggedOut_check 4 flaky 0 =
     (Inr (Wrapped \<lparr>cb = flaky, it = Some (Generator [Raise LoggedOut]), items = [],
                      remaining = 4, exc_check = LoggedOut_check\<rparr>), 1) \<and>
   fst (snd (consume acct_to_dict (=)
     (\<lparr>cb = flaky, it = Some (Generator [Raise LoggedOut]), items = [],
       remaining = 4, exc_check = LoggedOut_check\<rparr>, 1))) = ExhaustedRetries \<and>
   recreations acct_to_dict (=)
     \<lparr>cb = flaky, it = Some (Generator [Raise LoggedOut]), items = [],
      remaining = 4, exc_check = LoggedOut_check\<rparr> 1 = 3 \<and>
   recreations acct_to_dict (=)
     \<lparr>cb = flaky, it = Some (Generator [Raise LoggedOut]), items = [],
      remaining = 4, exc_check = LoggedOut_check\<rparr> 1 \<noteq> 4"
proof -
  have n: "\<not> LoggedOut_check (StopIteration :: acct exn)" by (simp add: LoggedOut_check_def)
  have first: "flaky 0 = Inr (Generator [Raise LoggedOut])" by (simp add: flaky_def)
  have sched: "\<forall>j<4. fails_midway LoggedOut_check accounts (flaky (0 + j))"
    by (simp add: flaky_fails_midway)
  have none: "\<forall>j<0. \<exists>e. flaky (0 + j) = Inl e \<and> LoggedOut_check e" by simp
  from retry_started [OF none, where tries = 4 and es = "[Raise LoggedOut]"] first
  have a: "retry LoggedOut_check 4 flaky 0 =
     (Inr (Wrapped \<lparr>cb = flaky, it = Some (Generator [Raise LoggedOut]), items = [],
                      remaining = 4, exc_check = LoggedOut_check\<rparr>), 1)"
    by simp
  from wrapped_exhausted [OF n accounts_same sched, where es = "[Raise LoggedOut]"] first
  obtain obs s' where "consume acct_to_dict (=)
      (\<lparr>cb = flaky, it = Some (Generator [Raise LoggedOut]), items = [],
        remaining = 4, exc_check = LoggedOut_check\<rparr>, 1) = (obs, ExhaustedRetries, s', 4)"
    by auto
  with a show ?thesis by (simp add: recreations_def)
qed

theorem shared_budget_witness:
  "flaky_thrice 0 = Inl LoggedOut \<and> LoggedOut_check (LoggedOut :: acct exn) \<and>
   flaky_thrice 1 = Inr (Generator (map Yield (take 1 accounts) @ [Raise LoggedOut])) \<and>
   retry LoggedOut_check 4 flaky_thrice 0 =
     (Inr (Wrapped \<lparr>cb = flaky_thrice,
                      it = Some (Generator (map Yield (take 1 accounts) @ [Raise LoggedOut])),
                      items = [], remaining = 3, exc_check = LoggedOut_check\<rparr>), 2) \<and>
   fails_midway LoggedOut_check accounts (flaky_thrice 1) \<and>
   fails_midway LoggedOut_check accounts (flaky_thrice 2) \<and>
   flaky_thrice 3 = Inr (Generator (map Yield accounts)) \<and>
   (\<exists>s'. consume acct_to_dict (=)
       (\<lparr>cb = flaky_thrice,
         it = Some (Generator (map Yield (take 1 accounts) @ [Raise LoggedOut])),
         items = [], remaining = 3, exc_check = LoggedOut_check\<rparr>, 2) =
       (accounts, StopIteration, s', 4)) \<and>
   fails_midway LoggedOut_check accounts (flaky_always 1) \<and>
   fails_midway LoggedOut_check accounts (flaky_always 2) \<and>
   fails_midway LoggedOut_check accounts (flaky_always 3) \<and>
   (\<exists>obs s'. consume acct_to_dict (=)
       (\<lparr>cb = flaky_always,
         it = Some (Generator (map Yield (take 1 accounts) @ [Raise LoggedOut])),
         items = [], remaining = 3, exc_check = LoggedOut_check\<rparr>, 2) =
       (obs, ExhaustedRetries, s', 4))"
proof -
  have n: "\<not> LoggedOut_check (StopIteration :: acct exn)" by (simp add: LoggedOut_check_def)
  have a: "\<forall>j<1. \<exists>e. flaky_thrice (0 + j) = Inl e \<and> LoggedOut_check e"
    by (simp add: flaky_thrice_def LoggedOut_check_def)
  have a': "\<forall>j<1. \<exists>e. flaky_always (0 + j) = Inl e \<and> LoggedOut_check e"
    by (simp add: flaky_always_def LoggedOut_check_def)
  have b: "int 1 < 4" by simp
  have c: "flaky_thrice (0 + 1) = Inr (Generator (map Yield (take 1 accounts) @ [Raise LoggedOut]))"
    by (simp add: flaky_thrice_def flaky_def)
  have c': "flaky_always (0 + 1) = Inr (Generator (map Yield (take 1 accounts) @ [Raise LoggedOut]))"
    by (simp add: flaky_always_def flaky_def)
  have d: "\<forall>j<2. fails_midway LoggedOut_check accounts (flaky_thrice (0 + 1 + j))"
    by (simp add: flaky_thrice_def flaky_fails_midway)
  have e: "flaky_thrice (0 + 1 + 2) = Inr (Generator (map Yield accounts))"
    by (simp add: flaky_thrice_def steady_def)
  have f: "\<forall>j. int j < 4 - int 1 \<longrightarrow> fails_midway LoggedOut_check accounts (flaky_always (0 + 1 + j))"
    by (simp add: flaky_always_def flaky_fails_midway)
  note t = shared_budget [OF a b c, where to_dict = acct_to_dict and py_eq = "(=)"
      and xs = accounts and m = 2]
  note t' = shared_budget [OF a' b c', where to_dict = acct_to_dict and py_eq = "(=)"
      and xs = accounts]
  from t [THEN conjunct1] have g: "retry LoggedOut_check 4 flaky_thrice 0 =
     (Inr (Wrapped \<lparr>cb = flaky_thrice,
                      it = Some (Generator (map Yield (take 1 accounts) @ [Raise LoggedOut])),
                      items = [], remaining = 3, exc_check = LoggedOut_check\<rparr>), 2)"
    by (simp add: eval_nat_numeral)
  from t [THEN conjunct2, THEN conjunct1] n accounts_same d e
  have h: "\<exists>s'. consume acct_to_dict (=)
       (\<lparr>cb = flaky_thrice,
         it = Some (Generator (map Yield (take 1 accounts) @ [Raise LoggedOut])),
         items = [], remaining = 3, exc_check = LoggedOut_check\<rparr>, 2) =
       (accounts, StopIteration, s', 4)"
    by (simp add: eval_nat_numeral)
  from t' [THEN conjunct2, THEN conjunct2] n accounts_same f
  have i: "\<exists>obs s'. consume acct_to_dict (=)
       (\<lparr>cb = flaky_always,
         it = Some (Generator (map Yield (take 1 accounts) @ [Raise LoggedOut])),
         items = [], remaining = 3, exc_check = LoggedOut_check\<rparr>, 2) =
       (obs, ExhaustedRetries, s', 4)"
    by (simp add: eval_nat_numeral)
  have p: "flaky_thrice 0 = Inl LoggedOut" "LoggedOut_check (LoggedOut :: acct exn)"
    "flaky_thrice 1 = Inr (Generator (map Yield (take 1 accounts) @ [Raise LoggedOut]))"
    "flaky_thrice 3 = Inr (Generator (map Yield accounts))"
    by (simp_all add: flaky_thrice_def LoggedOut_check_def flaky_def steady_def)
  have q: "fails_midway LoggedOut_check accounts (flaky_thrice 1)"
    "fails_midway LoggedOut_check accounts (flaky_thrice 2)"
    "fails_midway LoggedOut_check accounts (flaky_always 1)"
    "fails_midway LoggedOut_check accounts (flaky_always 2)"
    "fails_midway LoggedOut_check accounts (flaky_always 3)"
    by (simp_all add: flaky_thrice_def flaky_always_def flaky_fails_midway)
  show ?thesis by (intro conjI p q g h i)
qed

section \<open>The login of the browser\<close>

text \<open>
  The page classes of the \<^verbatim>\<open>URL\<close> declarations of \<^verbatim>\<open>BanquePopulaire\<close>, and the attributes of
  the browser that \<^verbatim>\<open>do_login\<close> and \<^verbatim>\<open>no_need_login\<close> read or write. \<open>username\<close> and
  \<open>password\<close> are \<open>None\<close> when they are no \<^verbatim>\<open>basestring\<close>.
\<close>

datatype page_kind =
    LoginPage | IndexPage | AccountsPage | IbanPage | AccountsFullPage | CardsPage
  | TransactionsPage | ErrorPage | UnavailablePage | RedirectPage | HomePage | Login2Page
  | LineboursePage | MessagePage | InvestmentLineboursePage | NatixisPage | EtnaPage
  | NatixisErrorPage | NatixisInvestPage | NatixisHistoryPage | NatixisDetailsPage
  | AdvisorPage

record browser =
  no_login :: int
  page :: "page_kind option"
  username :: "string option"
  password :: "string option"
  BASEURL :: string

text \<open>
  A statement of a method takes the browser and leaves it changed, raising or not. \<open>exec\<close>
  runs statements in order up to the first exception; with the outcome and the last state it
  returns the states of the run: the state in which each statement ran, and the state in
  which the run ended.
\<close>

type_synonym 'a stmt = "browser \<Rightarrow> 'a exn option \<times> browser"

fun exec :: "'a stmt list \<Rightarrow> browser \<Rightarrow> 'a exn option \<times> browser \<times> browser list" where
  "exec [] b = (None, b, [b])"
| "exec (c # cs) b =
     (case c b of
        (Some e, b') \<Rightarrow> (Some e, b', [b, b'])
      | (None, b') \<Rightarrow> (case exec cs b' of (r, bf, tr) \<Rightarrow> (r, bf, b # tr)))"

text \<open>
  \<^verbatim>\<open>do_login\<close>, lines 162 to 176. \<open>location\<close> (the transport) and \<open>page_login\<close>
  (\<^verbatim>\<open>self.page.login(self.username, self.password)\<close>, a method of the page classes) are
  collaborators outside these sources and come as parameters.
\<close>

definition is_here :: "page_kind \<Rightarrow> browser \<Rightarrow> bool" where
  "is_here k b = (page b = Some k)"

definition assert_basestring :: "(browser \<Rightarrow> string option) \<Rightarrow> 'a stmt" where
  "assert_basestring field b = (if field b = None then (Some AssertionError, b) else (None, b))"

definition raise_if_login_page :: "'a stmt" where
  "raise_if_login_page b =
     (if is_here LoginPage b then (Some BrowserIncorrectPassword, b) else (None, b))"

definition do_login_body ::
  "(string \<Rightarrow> 'a stmt) \<Rightarrow> 'a stmt \<Rightarrow> browser \<Rightarrow> 'a exn option \<times> browser \<times> browser list" where
  "do_login_body location page_login =
     exec [assert_basestring username,
           assert_basestring password,
           (\<lambda>b. location (BASEURL b) b),
           page_login,
           raise_if_login_page]"

text \<open>
  The decorator \<^verbatim>\<open>no_need_login\<close>, lines 81 to 90: the counter is incremented, the function
  runs on the browser so changed, and \<^verbatim>\<open>finally\<close> decrements the counter whether the function
  returned or raised. The states of the run are those of the function.
\<close>

definition no_need_login ::
  "(browser \<Rightarrow> 'a exn option \<times> browser \<times> browser list)
     \<Rightarrow> browser \<Rightarrow> 'a exn option \<times> browser \<times> browser list" where
  "no_need_login func b =
     (case func (b\<lparr>no_login := no_login b + 1\<rparr>) of
        (r, b2, tr) \<Rightarrow> (r, b2\<lparr>no_login := no_login b2 - 1\<rparr>, tr))"

definition do_login ::
  "(string \<Rightarrow> 'a stmt) \<Rightarrow> 'a stmt \<Rightarrow> browser \<Rightarrow> 'a exn option \<times> browser \<times> browser list" where
  "do_login location page_login = no_need_login (do_login_body location page_login)"

text \<open>A collaborator that leaves the counter as it found it.\<close>

definition keeps_no_login :: "'a stmt \<Rightarrow> bool" where
  "keeps_no_login c = (\<forall>b. no_login (snd (c b)) = no_login b)"

lemma exec_no_login:
  assumes "\<forall>c\<in>set cs. keeps_no_login c" and "exec cs b = (r, b', tr)"
  shows "no_login b' = no_login b \<and> (\<forall>x\<in>set tr. no_login x = no_login b)"
  using assms
proof (induction cs arbitrary: b r b' tr)
  case Nil
  then show ?case by auto
next
  case (Cons c cs)
  obtain r1 b1 where c: "c b = (r1, b1)" by (cases "c b")
  from Cons.prems(1) c have b1: "no_login b1 = no_login b"
    by (auto simp: keeps_no_login_def dest: spec [where x = b])
  show ?case
  proof (cases r1)
    case (Some e)
    with c Cons.prems(2) b1 show ?thesis by auto
  next
    case None
    obtain r2 b2 tr2 where e: "exec cs b1 = (r2, b2, tr2)" by (cases "exec cs b1")
    from Cons.IH [OF _ e] Cons.prems(1)
    have "no_login b2 = no_login b1 \<and> (\<forall>x\<in>set tr2. no_login x = no_login b1)"
      by simp
    with None c e Cons.prems(2) b1 show ?thesis by auto
  qed
qed

lemma exec_starts: "exec cs b = (r, b', tr) \<Longrightarrow> tr \<noteq> [] \<and> hd tr = b"
  by (cases cs) (auto split: prod.splits option.splits)

lemma do_login_body_location:
  assumes "username b \<noteq> None" and "password b \<noteq> None"
    and "do_login_body location page_login b = (r, b', tr)"
  shows "snd (location (BASEURL b) b) \<in> set tr"
  using assms
  by (auto simp: do_login_body_def assert_basestring_def split: prod.splits option.splits)

text \<open>
  Claim C8. For every call of \<^verbatim>\<open>do_login\<close> on a browser whose counter \<open>no_login\<close> is not
  negative, with collaborators that leave the counter as they found it. The outcome \<open>r\<close> (the
  exception, if any) and the states \<open>tr\<close> of the call are those of the body of \<^verbatim>\<open>do_login\<close>
  run on the browser with the counter incremented: the run starts in that state, the
  navigation is called in it when the credentials are strings, and in every state of the
  run the counter is strictly positive. When the call is over, returning or raising, the
  browser is as the body left it but for the counter, which has the value it had before the
  call.
\<close>

theorem login_counter:
  assumes "\<forall>url. keeps_no_login (location url)" and "keeps_no_login page_login"
    and "0 \<le> no_login b"
    and "do_login location page_login b = (r, b', tr)"
  shows "(\<exists>b2. do_login_body location page_login (b\<lparr>no_login := no_login b + 1\<rparr>) = (r, b2, tr) \<and>
               b' = b2\<lparr>no_login := no_login b\<rparr>) \<and>
         tr \<noteq> [] \<and> hd tr = b\<lparr>no_login := no_login b + 1\<rparr> \<and>
         (\<forall>x\<in>set tr. 0 < no_login x) \<and>
         no_login b' = no_login b \<and>
         (username b \<noteq> None \<and> password b \<noteq> None \<longrightarrow>
            snd (location (BASEURL b) (b\<lparr>no_login := no_login b + 1\<rparr>)) \<in> set tr)"
proof -
  let ?b1 = "b\<lparr>no_login := no_login b + 1\<rparr>"
  obtain r2 b2 tr2 where body: "do_login_body location page_login ?b1 = (r2, b2, tr2)"
    by (cases "do_login_body location page_login ?b1")
  have keep: "\<forall>c\<in>set [assert_basestring username, assert_basestring password,
           (\<lambda>b. location (BASEURL b) b), page_login, raise_if_login_page :: 'a stmt]. keeps_no_login c"
    using assms(1,2)
    by (auto simp: keeps_no_login_def assert_basestring_def raise_if_login_page_def)
  from exec_no_login [OF keep] body
  have inv: "no_login b2 = no_login ?b1" "\<forall>x\<in>set tr2. no_login x = no_login ?b1"
    by (simp_all add: do_login_body_def)
  from exec_starts [OF body [unfolded do_login_body_def]]
  have start: "tr2 \<noteq> []" "hd tr2 = ?b1"
    by simp_all
  from assms(4) body have res: "r = r2" "b' = b2\<lparr>no_login := no_login b2 - 1\<rparr>" "tr = tr2"
    by (simp_all add: do_login_def no_need_login_def)
  from res(2) inv(1) have b': "b' = b2\<lparr>no_login := no_login b\<rparr>" by simp
  have loc: "snd (location (BASEURL b) ?b1) \<in> set tr"
    if "username b \<noteq> None \<and> password b \<noteq> None"
    using do_login_body_location [of ?b1 location page_login r2 b2 tr2] body that res(3)
    by simp
  from body res b' start inv assms(3) loc show ?thesis by auto
qed

text \<open>
  Modelled from the spec: \<^verbatim>\<open>need_login\<close>, which the browser imports from \<^verbatim>\<open>weboob.browser\<close>
  and which is not among the sources. It is the LoginGate of the spec: before the wrapped
  operation runs, when the session is not logged in, the login routine is performed, and
  its failure is raised in place of the operation.
\<close>

definition need_login ::
  "(browser \<Rightarrow> bool) \<Rightarrow> (browser \<Rightarrow> 'a exn option \<times> browser \<times> browser list)
     \<Rightarrow> (browser \<Rightarrow> ('a exn + 'r) \<times> browser) \<Rightarrow> browser \<Rightarrow> ('a exn + 'r) \<times> browser" where
  "need_login logged login func b =
     (if logged b then func b
      else case login b of
             (Some e, b', tr) \<Rightarrow> (Inl e, b')
           | (None, b', tr) \<Rightarrow> func b')"

lemma do_login_incorrect:
  assumes "username b = Some u" and "password b = Some p"
    and "location (BASEURL b) (b\<lparr>no_login := no_login b + 1\<rparr>) = (None, b2)"
    and "page_login b2 = (None, b3)"
    and "page b3 = Some LoginPage"
  shows "fst (do_login location page_login b) = Some BrowserIncorrectPassword"
  using assms
  by (simp add: do_login_def no_need_login_def do_login_body_def assert_basestring_def
      raise_if_login_page_def is_here_def)

text \<open>
  Claim C7. When the credentials are strings, the navigation to the site and the submission
  of the form do not raise, and the page is then still the login page, \<^verbatim>\<open>do_login\<close> raises
  \<^verbatim>\<open>BrowserIncorrectPassword\<close>. The exception reaches the caller of a method decorated with
  \<^verbatim>\<open>@retry(LoggedOut)\<close> and \<^verbatim>\<open>@need_login\<close> without a retry: raised by the call of the
  operation, \<^verbatim>\<open>retry\<close> raises it after that one call; raised by the call that recreates the
  generator, or by the generator during the iteration, \<^verbatim>\<open>__next__\<close> raises it and
  \<open>remaining\<close> keeps its value.
\<close>

theorem incorrect_password_not_retried:
  assumes "username b = Some u" and "password b = Some p"
    and "location (BASEURL b) (b\<lparr>no_login := no_login b + 1\<rparr>) = (None, b2)"
    and "page_login b2 = (None, b3)"
    and "page b3 = Some LoginPage"
  shows "fst (do_login location page_login b) = Some BrowserIncorrectPassword \<and>
         (\<not> logged b \<and> 0 < tries \<and>
          func_cb w = fst (need_login logged (do_login location page_login) operation b)
            \<longrightarrow> retry LoggedOut_check tries func_cb w = (Inl BrowserIncorrectPassword, Suc w)) \<and>
         (\<not> logged b \<and> 0 < remaining s \<and> it s = None \<and>
          cb s w = fst (need_login logged (do_login location page_login) operation b)
            \<longrightarrow> iter_next to_dict py_eq (s, w) = (Inl BrowserIncorrectPassword, s, Suc w)) \<and>
         (exc_check s = LoggedOut_check \<and> 0 < remaining s \<and> it s = Some g \<and>
          next_py g = (Inl BrowserIncorrectPassword, g')
            \<longrightarrow> iter_next to_dict py_eq (s, w) =
                 (Inl BrowserIncorrectPassword, s\<lparr>it := Some g'\<rparr>, w))"
proof -
  note raised = do_login_incorrect [where location = location and page_login = page_login
      and b = b and ?b2.0 = b2 and ?b3.0 = b3, OF assms]
  have gate: "fst (need_login logged (do_login location page_login) operation b) =
      Inl BrowserIncorrectPassword" if "\<not> logged b"
    using raised that
    by (cases "do_login location page_login b") (simp add: need_login_def)
  show ?thesis
  proof (intro conjI impI)
    show "fst (do_login location page_login b) = Some BrowserIncorrectPassword"
      by (rule raised)
  next
    assume a: "\<not> logged b \<and> 0 < tries \<and>
          func_cb w = fst (need_login logged (do_login location page_login) operation b)"
    with gate have "func_cb w = Inl BrowserIncorrectPassword" by simp
    with a show "retry LoggedOut_check tries func_cb w = (Inl BrowserIncorrectPassword, Suc w)"
      by (simp add: retry_def retry_loop_propagate LoggedOut_check_def)
  next
    assume a: "\<not> logged b \<and> 0 < remaining s \<and> it s = None \<and>
          cb s w = fst (need_login logged (do_login location page_login) operation b)"
    with gate have "cb s w = Inl BrowserIncorrectPassword" by simp
    then have "recreate to_dict py_eq s w = (Propagate BrowserIncorrectPassword, s, Suc w)"
      by (simp add: recreate_def)
    with a show "iter_next to_dict py_eq (s, w) = (Inl BrowserIncorrectPassword, s, Suc w)"
      by (simp add: iter_next_recreate_propagate)
  next
    assume a: "exc_check s = LoggedOut_check \<and> 0 < remaining s \<and> it s = Some g \<and>
          next_py g = (Inl BrowserIncorrectPassword, g')"
    then have h: "0 < remaining s" "it s = Some g" "next_py g = (Inl BrowserIncorrectPassword, g')"
      "\<not> exc_check s BrowserIncorrectPassword"
      by (simp_all add: LoggedOut_check_def)
    from iter_next_raise [OF h]
    show "iter_next to_dict py_eq (s, w) = (Inl BrowserIncorrectPassword, s\<lparr>it := Some g'\<rparr>, w)" .
  qed
qed

text \<open>A visitor with a wrong password: after the form is sent the site shows the login page again.\<close>

definition visitor :: browser where
  "visitor = \<lparr>no_login = 0, page = None, username = Some ''me'', password = Some ''wrong'',
              BASEURL = ''https://www.ibps.example''\<rparr>"

definition to_login_page :: "acct stmt" where
  "to_login_page b = (None, b\<lparr>page := Some LoginPage\<rparr>)"

theorem login_counter_witness:
  "keeps_no_login to_login_page \<and> 0 \<le> no_login visitor \<and>
   do_login (\<lambda>url. to_login_page) to_login_page visitor =
     (Some BrowserIncorrectPassword, visitor\<lparr>page := Some LoginPage\<rparr>,
      [visitor\<lparr>no_login := 1\<rparr>, visitor\<lparr>no_login := 1\<rparr>, visitor\<lparr>no_login := 1\<rparr>,
       visitor\<lparr>no_login := 1, page := Some LoginPage\<rparr>,
       visitor\<lparr>no_login := 1, page := Some LoginPage\<rparr>,
       visitor\<lparr>no_login := 1, page := Some LoginPage\<rparr>]) \<and>
   list_all (\<lambda>x. 0 < no_login x)
     [visitor\<lparr>no_login := 1\<rparr>, visitor\<lparr>no_login := 1\<rparr>, visitor\<lparr>no_login := 1\<rparr>,
      visitor\<lparr>no_login := 1, page := Some LoginPage\<rparr>,
      visitor\<lparr>no_login := 1, page := Some LoginPage\<rparr>,
      visitor\<lparr>no_login := 1, page := Some LoginPage\<rparr>] \<and>
   no_login (visitor\<lparr>page := Some LoginPage\<rparr>) = no_login visitor \<and>
   snd (to_login_page (visitor\<lparr>no_login := no_login visitor + 1\<rparr>)) =
     visitor\<lparr>no_login := 1, page := Some LoginPage\<rparr>"
proof -
  have k: "keeps_no_login to_login_page"
    by (simp add: keeps_no_login_def to_login_page_def)
  then have k': "\<forall>url :: string. keeps_no_login ((\<lambda>url. to_login_page) url)" by simp
  have z: "0 \<le> no_login visitor" by (simp add: visitor_def)
  have e: "do_login (\<lambda>url. to_login_page) to_login_page visitor =
     (Some BrowserIncorrectPassword, visitor\<lparr>page := Some LoginPage\<rparr>,
      [visitor\<lparr>no_login := 1\<rparr>, visitor\<lparr>no_login := 1\<rparr>, visitor\<lparr>no_login := 1\<rparr>,
       visitor\<lparr>no_login := 1, page := Some LoginPage\<rparr>,
       visitor\<lparr>no_login := 1, page := Some LoginPage\<rparr>,
       visitor\<lparr>no_login := 1, page := Some LoginPage\<rparr>])"
    by (simp add: do_login_def no_need_login_def do_login_body_def assert_basestring_def
      raise_if_login_page_def is_here_def to_login_page_def visitor_def)
  note t = login_counter [OF k' k z e]
  from t have "\<forall>x\<in>set
     [visitor\<lparr>no_login := 1\<rparr>, visitor\<lparr>no_login := 1\<rparr>, visitor\<lparr>no_login := 1\<rparr>,
      visitor\<lparr>no_login := 1, page := Some LoginPage\<rparr>,
      visitor\<lparr>no_login := 1, page := Some LoginPage\<rparr>,
      visitor\<lparr>no_login := 1, page := Some LoginPage\<rparr>]. 0 < no_login x"
    by blast
  then have p: "list_all (\<lambda>x. 0 < no_login x)
     [visitor\<lparr>no_login := 1\<rparr>, visitor\<lparr>no_login := 1\<rparr>, visitor\<lparr>no_login := 1\<rparr>,
      visitor\<lparr>no_login := 1, page := Some LoginPage\<rparr>,
      visitor\<lparr>no_login := 1, page := Some LoginPage\<rparr>,
      visitor\<lparr>no_login := 1, page := Some LoginPage\<rparr>]"
    by (simp only: list_all_iff)
  from t have q: "no_login (visitor\<lparr>page := Some LoginPage\<rparr>) = no_login visitor" by blast
  have l: "snd (to_login_page (visitor\<lparr>no_login := no_login visitor + 1\<rparr>)) =
     visitor\<lparr>no_login := 1, page := Some LoginPage\<rparr>"
    by (simp add: to_login_page_def visitor_def)
  show ?thesis by (intro conjI k z e p q l)
qed

text \<open>
  What the counter is for: a page that raises \<^verbatim>\<open>LoggedOut\<close> unless a login is in progress
  does not raise it inside \<^verbatim>\<open>do_login\<close>, although the visitor's counter is 0 before the call
  and after it.
\<close>

definition watchful :: "acct stmt" where
  "watchful b =
     (if no_login b \<le> 0 then (Some LoggedOut, b) else (None, b\<lparr>page := Some IndexPage\<rparr>))"

lemma watchful_keeps: "keeps_no_login watchful"
  by (simp add: keeps_no_login_def watchful_def)

lemma login_suppresses_logged_out:
  "fst (do_login (\<lambda>url. watchful) watchful visitor) = None \<and>
   no_login (fst (snd (do_login (\<lambda>url. watchful) watchful visitor))) = 0 \<and>
   fst (do_login_body (\<lambda>url. watchful) watchful visitor) = Some LoggedOut"
  by (simp add: do_login_def no_need_login_def do_login_body_def assert_basestring_def
      raise_if_login_page_def is_here_def watchful_def visitor_def)

theorem incorrect_password_not_retried_witness:
  "username visitor = Some ''me'' \<and> password visitor = Some ''wrong'' \<and>
   page (snd (to_login_page (visitor\<lparr>no_login := 1, page := Some LoginPage\<rparr>))) = Some LoginPage \<and>
   fst (do_login (\<lambda>url. to_login_page) to_login_page visitor) = Some BrowserIncorrectPassword \<and>
   retry LoggedOut_check 4
     (\<lambda>n. fst (need_login (\<lambda>b. False) (do_login (\<lambda>url. to_login_page) to_login_page)
                 (\<lambda>b. (Inr (Generator []), b)) visitor)) 0
     = (Inl BrowserIncorrectPassword, 1) \<and>
   iter_next acct_to_dict (=)
     (replaying (\<lambda>n. fst (need_login (\<lambda>b. False) (do_login (\<lambda>url. to_login_page) to_login_page)
                 (\<lambda>b. (Inr (Generator []), b)) visitor)), 1)
     = (Inl BrowserIncorrectPassword,
        replaying (\<lambda>n. fst (need_login (\<lambda>b. False) (do_login (\<lambda>url. to_login_page) to_login_page)
                 (\<lambda>b. (Inr (Generator []), b)) visitor)), 2) \<and>
   fst (iter_next acct_to_dict (=)
     ((replaying (\<lambda>n. Inl LoggedOut))\<lparr>it := Some (Generator [Raise BrowserIncorrectPassword])\<rparr>, 1))
     = Inl BrowserIncorrectPassword"
proof -
  have a: "username visitor = Some ''me''" "password visitor = Some ''wrong''"
    "(\<lambda>url. to_login_page) (BASEURL visitor) (visitor\<lparr>no_login := no_login visitor + 1\<rparr>) =
       (None, visitor\<lparr>no_login := 1, page := Some LoginPage\<rparr>)"
    "to_login_page (visitor\<lparr>no_login := 1, page := Some LoginPage\<rparr>) =
       (None, visitor\<lparr>no_login := 1, page := Some LoginPage\<rparr>)"
    "page (visitor\<lparr>no_login := 1, page := Some LoginPage\<rparr>) = Some LoginPage"
    by (simp_all add: visitor_def to_login_page_def)
  note t = incorrect_password_not_retried [where location = "\<lambda>url. to_login_page"
      and page_login = to_login_page and b = visitor
      and ?b2.0 = "visitor\<lparr>no_login := 1, page := Some LoginPage\<rparr>"
      and ?b3.0 = "visitor\<lparr>no_login := 1, page := Some LoginPage\<rparr>"
      and u = "''me''" and p = "''wrong''" and logged = "\<lambda>b. False"
      and operation = "\<lambda>b. (Inr (Generator []), b)" and to_dict = acct_to_dict and py_eq = "(=)"
      and w = 1 and tries = 4, OF a]
  note t0 = incorrect_password_not_retried [where location = "\<lambda>url. to_login_page"
      and page_login = to_login_page and b = visitor
      and ?b2.0 = "visitor\<lparr>no_login := 1, page := Some LoginPage\<rparr>"
      and ?b3.0 = "visitor\<lparr>no_login := 1, page := Some LoginPage\<rparr>"
      and u = "''me''" and p = "''wrong''" and logged = "\<lambda>b. False"
      and operation = "\<lambda>b. (Inr (Generator []), b)" and w = 0 and tries = 4
      and func_cb = "\<lambda>n. fst (need_login (\<lambda>b. False) (do_login (\<lambda>url. to_login_page) to_login_page)
                 (\<lambda>b. (Inr (Generator []), b)) visitor)", OF a]
  have p1: "fst (do_login (\<lambda>url. to_login_page) to_login_page visitor) = Some BrowserIncorrectPassword"
    by (rule t [THEN conjunct1])
  have p2: "retry LoggedOut_check 4
     (\<lambda>n. fst (need_login (\<lambda>b. False) (do_login (\<lambda>url. to_login_page) to_login_page)
                 (\<lambda>b. (Inr (Generator []), b)) visitor)) 0
     = (Inl BrowserIncorrectPassword, 1)"
    using t0 [THEN conjunct2, THEN conjunct1] by simp
  have p3: "iter_next acct_to_dict (=)
     (replaying (\<lambda>n. fst (need_login (\<lambda>b. False) (do_login (\<lambda>url. to_login_page) to_login_page)
                 (\<lambda>b. (Inr (Generator []), b)) visitor)), 1)
     = (Inl BrowserIncorrectPassword,
        replaying (\<lambda>n. fst (need_login (\<lambda>b. False) (do_login (\<lambda>url. to_login_page) to_login_page)
                 (\<lambda>b. (Inr (Generator []), b)) visitor)), 2)"
    using t [where s = "replaying (\<lambda>n. fst (need_login (\<lambda>b. False) (do_login (\<lambda>url. to_login_page) to_login_page)
                 (\<lambda>b. (Inr (Generator []), b)) visitor))", THEN conjunct2, THEN conjunct2, THEN conjunct1]
    by (simp add: replaying_def)
  have p4: "fst (iter_next acct_to_dict (=)
     ((replaying (\<lambda>n. Inl LoggedOut))\<lparr>it := Some (Generator [Raise BrowserIncorrectPassword])\<rparr>, 1))
     = Inl BrowserIncorrectPassword"
    using t [where s = "(replaying (\<lambda>n. Inl LoggedOut))\<lparr>it := Some (Generator [Raise BrowserIncorrectPassword])\<rparr>"
        and g = "Generator [Raise BrowserIncorrectPassword]" and g' = "Generator []",
        THEN conjunct2, THEN conjunct2, THEN conjunct2]
    by (simp add: replaying_def)
  have p0: "page (snd (to_login_page (visitor\<lparr>no_login := 1, page := Some LoginPage\<rparr>))) = Some LoginPage"
    by (simp add: to_login_page_def)
  show ?thesis by (intro conjI a(1) a(2) p0 p1 p2 p3 p4)
qed

end
